theory Spec2Isabelle
  imports Main "HOL-Library.Sublist"
begin

section \<open>Roster purifier and name matcher: the services of excelService.ts\<close>

text \<open>
  A shallow embedding of \<^verbatim>\<open>src/services/excelService.ts\<close>: \<^verbatim>\<open>parseYMD\<close>, the tab
  selection of \<^verbatim>\<open>parseExcel\<close>, \<^verbatim>\<open>findMajorityMonth\<close>, \<^verbatim>\<open>cleanRosterData\<close> and
  \<^verbatim>\<open>updateNames\<close>, together with the parts of the JavaScript runtime they call
  (string methods, the one regular expression of each function, \<^verbatim>\<open>parseInt\<close>, the
  \<^verbatim>\<open>Date\<close> constructor and its getters).
\<close>

subsection \<open>Strings\<close>

text \<open>
  A JavaScript string is a sequence of UTF-16 code units. A \<^typ>\<open>char\<close> stands for a code
  unit below 256 (ASCII and Latin-1), so a \<^typ>\<open>string\<close> is a JavaScript string over
  that range. On it, the white space of \<^verbatim>\<open>trim\<close>, of \<^verbatim>\<open>\s\<close> and of \<^verbatim>\<open>parseInt\<close>
  is TAB, LF, VT, FF, CR, SPACE and NBSP; the line terminators that \<^verbatim>\<open>.\<close> refuses are
  LF and CR; \<^verbatim>\<open>toLowerCase\<close> adds 32 to A-Z and to the Latin-1 capitals.
\<close>

definition isWhiteSpace :: "char \<Rightarrow> bool" where
  "isWhiteSpace c \<longleftrightarrow>
     c = CHR 0x09 \<or> c = CHR 0x0A \<or> c = CHR 0x0B \<or> c = CHR 0x0C \<or> c = CHR 0x0D \<or>
     c = CHR '' '' \<or> c = CHR 0xA0"

definition isLineTerminator :: "char \<Rightarrow> bool" where
  "isLineTerminator c \<longleftrightarrow> c = CHR 0x0A \<or> c = CHR 0x0D"

definition isDigit :: "char \<Rightarrow> bool" where
  "isDigit c \<longleftrightarrow> (48::int) \<le> of_char c \<and> (of_char c :: int) \<le> 57"

definition toLowerChar :: "char \<Rightarrow> char" where
  "toLowerChar c =
     (let n = (of_char c :: int)
      in if (65 \<le> n \<and> n \<le> 90) \<or> (192 \<le> n \<and> n \<le> 214) \<or> (216 \<le> n \<and> n \<le> 222)
         then char_of (n + 32) else c)"

definition toLowerCase :: "string \<Rightarrow> string" where
  "toLowerCase s = map toLowerChar s"

definition trim :: "string \<Rightarrow> string" where
  "trim s = rev (dropWhile isWhiteSpace (rev (dropWhile isWhiteSpace s)))"

text \<open>\<^verbatim>\<open>hay.includes(needle)\<close>: the needle starts at some position of the haystack.\<close>

fun includes_str :: "string \<Rightarrow> string \<Rightarrow> bool" where
  "includes_str [] needle = (needle = [])"
| "includes_str (c # cs) needle = (prefix needle (c # cs) \<or> includes_str cs needle)"

definition endsWith :: "string \<Rightarrow> string \<Rightarrow> bool" where
  "endsWith s suffix_str = prefix (rev suffix_str) (rev s)"

text \<open>
  \<^verbatim>\<open>str.replace(/\s*\(.*?\)\s*/g, ' ')\<close>. The pattern is tried at each position from the
  left. \<^verbatim>\<open>\s*\<close> takes the whole run of white space (giving some of it back cannot help,
  the next character must be an opening parenthesis); \<^verbatim>\<open>.*?\)\<close> stops at the first
  closing parenthesis and fails at a line terminator before it; the last \<^verbatim>\<open>\s*\<close> takes
  the white space that follows. A match is replaced by one space and the scan goes on
  after it; where the pattern does not match, the character is copied.
\<close>

fun lazyClose :: "string \<Rightarrow> string option" where
  "lazyClose [] = None"
| "lazyClose (c # cs) =
     (if c = CHR '')'' then Some cs
      else if isLineTerminator c then None
      else lazyClose cs)"

definition matchAnnotation :: "string \<Rightarrow> string option" where
  "matchAnnotation s =
     (case dropWhile isWhiteSpace s of
        [] \<Rightarrow> None
      | c # r \<Rightarrow>
          if c = CHR ''(''
          then (case lazyClose r of
                  None \<Rightarrow> None
                | Some r' \<Rightarrow> Some (dropWhile isWhiteSpace r'))
          else None)"

function replaceAnnotations :: "string \<Rightarrow> string" where
  "replaceAnnotations [] = []"
| "replaceAnnotations (c # cs) =
     (case matchAnnotation (c # cs) of
        Some r \<Rightarrow> CHR '' '' # replaceAnnotations r
      | None \<Rightarrow> c # replaceAnnotations cs)"
  by pat_completeness auto

lemma lazyClose_shorter: "lazyClose s = Some r \<Longrightarrow> length r < length s"
  by (induction s) (auto split: if_splits)

lemma matchAnnotation_shorter: "matchAnnotation s = Some r \<Longrightarrow> length r < length s"
proof -
  assume m: "matchAnnotation s = Some r"
  then obtain c t t' where d: "dropWhile isWhiteSpace s = c # t" and l: "lazyClose t = Some t'"
    and r: "r = dropWhile isWhiteSpace t'"
    by (auto simp: matchAnnotation_def split: list.splits if_splits option.splits)
  have "length r \<le> length t'"
    unfolding r by (rule length_dropWhile_le)
  also have "\<dots> < length t"
    using l by (rule lazyClose_shorter)
  also have "\<dots> < length (dropWhile isWhiteSpace s)"
    by (simp add: d)
  also have "\<dots> \<le> length s"
    by (rule length_dropWhile_le)
  finally show ?thesis .
qed

termination replaceAnnotations
  by (relation "measure length") (auto dest: matchAnnotation_shorter)

text \<open>Decimal rendering of an integer, as \<^verbatim>\<open>String(n)\<close> gives it below \<open>10\<^sup>2\<^sup>1\<close>.\<close>

definition digitChar :: "int \<Rightarrow> char" where
  "digitChar i = ''0123456789'' ! nat i"

function showDigits :: "int \<Rightarrow> string" where
  "showDigits i =
     (if i < 10 then [digitChar i] else showDigits (i div 10) @ [digitChar (i mod 10)])"
  by pat_completeness auto

termination showDigits
  by (relation "measure nat") auto

declare showDigits.simps [simp del]

definition showInt :: "int \<Rightarrow> string" where
  "showInt i = (if i < 0 then CHR ''-'' # showDigits (- i) else showDigits i)"

subsection \<open>Cells, rows, sheets\<close>

text \<open>
  A \<^verbatim>\<open>Date\<close> object holds a time value in milliseconds, or NaN (an invalid date). The
  model keeps the local time value: the local time zone is taken to be UTC.
  A cell is \<^verbatim>\<open>any\<close> in the source; the model has the values the pipeline meets: null,
  undefined (also what reading beyond the end of a row gives), strings, integral numbers
  and \<^verbatim>\<open>Date\<close> objects. A row is an array of cells (\<^verbatim>\<open>any[]\<close>, never null itself), a
  sheet is the \<^verbatim>\<open>RosterSheet\<close> interface.
\<close>

datatype jsdate = InvalidDate | TimeValue int

datatype cell = CNull | CUndefined | CStr string | CNum int | CDate jsdate

type_synonym row = "cell list"

record sheet =
  name :: string
  data :: "row list"

text \<open>
  What the runtime leaves to the implementation: the string parser of
  \<^verbatim>\<open>new Date(str)\<close> and the text of \<^verbatim>\<open>String(date)\<close>.
\<close>

record runtime =
  dateParse :: "string \<Rightarrow> jsdate"
  dateToString :: "jsdate \<Rightarrow> string"

text \<open>\<^verbatim>\<open>row[i]\<close>: undefined beyond the end.\<close>

definition at :: "row \<Rightarrow> nat \<Rightarrow> cell" where
  "at r i = (if i < length r then r ! i else CUndefined)"

text \<open>\<^verbatim>\<open>!val\<close>: null, undefined, the empty string and 0 are falsy; every object is truthy.\<close>

fun falsy :: "cell \<Rightarrow> bool" where
  "falsy CNull = True"
| "falsy CUndefined = True"
| "falsy (CStr s) = (s = [])"
| "falsy (CNum n) = (n = 0)"
| "falsy (CDate d) = False"

fun String :: "runtime \<Rightarrow> cell \<Rightarrow> string" where
  "String rt CNull = ''null''"
| "String rt CUndefined = ''undefined''"
| "String rt (CStr s) = s"
| "String rt (CNum n) = showInt n"
| "String rt (CDate d) = dateToString rt d"

text \<open>\<^verbatim>\<open>xs.map((x, i) => f(x, i))\<close> and \<^verbatim>\<open>xs.filter((x, i) => p(x, i))\<close>.\<close>

definition mapi :: "(nat \<Rightarrow> 'a \<Rightarrow> 'b) \<Rightarrow> 'a list \<Rightarrow> 'b list" where
  "mapi f xs = map (\<lambda>(i, x). f i x) (enumerate 0 xs)"

definition filteri :: "(nat \<Rightarrow> 'a \<Rightarrow> bool) \<Rightarrow> 'a list \<Rightarrow> 'a list" where
  "filteri p xs = map snd (filter (\<lambda>(i, x). p i x) (enumerate 0 xs))"

subsection \<open>updateNames\<close>

definition staffFullNames :: "runtime \<Rightarrow> row list \<Rightarrow> string list" where
  "staffFullNames rt staffList =
     filter (\<lambda>n. length n > 0)
       (map (\<lambda>n. trim (String rt n))
         (filter (\<lambda>n. n \<noteq> CNull \<and> n \<noteq> CUndefined)
           (map (\<lambda>r. at r 0) staffList)))"

text \<open>
  \<^verbatim>\<open>String(currentRosterName).trim()\<close>, then
  \<^verbatim>\<open>.replace(/\s*\(.*?\)\s*/g, ' ').trim()\<close>: the two assignments to \<^verbatim>\<open>rosterNameStr\<close>.
\<close>

definition cleanedName :: "runtime \<Rightarrow> cell \<Rightarrow> string" where
  "cleanedName rt currentRosterName =
     trim (replaceAnnotations (trim (String rt currentRosterName)))"

text \<open>
  The callback of \<^verbatim>\<open>sheet.data.map((row, rIdx) => ...)\<close>. \<^verbatim>\<open>newRow\<close> is a copy of the row;
  it is written at index 5 only where \<^verbatim>\<open>row[5]\<close> is neither null nor undefined, so the
  index is inside the row. Every staff name is a non-empty string, so \<^verbatim>\<open>if (claraMatch)\<close>
  and its like ask whether \<^verbatim>\<open>find\<close> found one.
\<close>

definition updateRow :: "runtime \<Rightarrow> string list \<Rightarrow> nat \<Rightarrow> row \<Rightarrow> row" where
  "updateRow rt staff rIdx r =
     (if rIdx = 0 then r
      else
        let currentRosterName = at r 5 in
        if currentRosterName \<noteq> CNull \<and> currentRosterName \<noteq> CUndefined then
          let rosterNameStr = cleanedName rt currentRosterName;
              rosterNameLower = toLowerCase rosterNameStr
          in
            if rosterNameStr \<noteq> [] then
              (case (if rosterNameLower = ''clara ckm''
                     then find (\<lambda>sn. includes_str (toLowerCase sn) ''clara cheung ka man'') staff
                     else None) of
                 Some claraMatch \<Rightarrow> r[5 := CStr claraMatch]
               | None \<Rightarrow>
                  (case (if rosterNameLower = ''clara cheung''
                         then find (\<lambda>sn. includes_str (toLowerCase sn) ''clara cheung wing kum'') staff
                         else None) of
                     Some claraWingMatch \<Rightarrow> r[5 := CStr claraWingMatch]
                   | None \<Rightarrow>
                      (case find (\<lambda>sn. toLowerCase sn = rosterNameLower) staff of
                         Some exactMatch \<Rightarrow> r[5 := CStr exactMatch]
                       | None \<Rightarrow>
                          (case find (\<lambda>sn. includes_str (toLowerCase sn) rosterNameLower) staff of
                             Some partialMatch \<Rightarrow> r[5 := CStr partialMatch]
                           | None \<Rightarrow> r))))
            else r
        else r)"

definition updateNames :: "runtime \<Rightarrow> sheet list \<Rightarrow> row list \<Rightarrow> sheet list" where
  "updateNames rt rosterSheets staffList =
     map (\<lambda>sh. sh\<lparr>data := mapi (updateRow rt (staffFullNames rt staffList)) (data sh)\<rparr>)
       rosterSheets"

subsection \<open>Dates: the time value of a Date object\<close>

text \<open>
  The day and year arithmetic of the language definition (Day, DaysInYear, DayFromYear,
  YearFromTime, MonthFromTime, DateFromTime, MakeDay, TimeClip). YearFromTime is
  defined there as the largest year whose first day is not after the time; here it is
  computed by walking up from a year that cannot be too large. Numbers are integers:
  \<^verbatim>\<open>parseInt\<close> is exact below \<open>2\<^sup>5\<^sup>3\<close>, and NaN is \<^term>\<open>None\<close>.
\<close>

definition msPerDay :: int where
  "msPerDay = 86400000"

definition Day :: "int \<Rightarrow> int" where
  "Day t = t div msPerDay"

definition DaysInYear :: "int \<Rightarrow> int" where
  "DaysInYear y =
     (if y mod 4 \<noteq> 0 then 365
      else if y mod 100 \<noteq> 0 then 366
      else if y mod 400 \<noteq> 0 then 365
      else 366)"

definition DayFromYear :: "int \<Rightarrow> int" where
  "DayFromYear y =
     365 * (y - 1970) + (y - 1969) div 4 - (y - 1901) div 100 + (y - 1601) div 400"

function yearUp :: "int \<Rightarrow> int \<Rightarrow> int" where
  "yearUp d y = (if DayFromYear (y + 1) \<le> d then yearUp d (y + 1) else y)"
  by pat_completeness auto

lemma div_succ:
  fixes z n :: int
  assumes "1 < n"
  shows "(z + 1) div n = z div n + (if (z + 1) mod n = 0 then 1 else 0)"
proof -
  have r: "0 \<le> z mod n" "z mod n < n" using assms by simp_all
  have one: "1 div n = 0" "1 mod n = 1" using assms by simp_all
  have d: "(z + 1) div n = z div n + (z mod n + 1) div n"
    using div_add1_eq[of z 1 n] one by simp
  have m: "(z + 1) mod n = (z mod n + 1) mod n"
    by (simp add: mod_add_left_eq)
  show ?thesis
  proof (cases "z mod n + 1 = n")
    case True
    then show ?thesis using d m assms by simp
  next
    case False
    with r have lt: "z mod n + 1 < n" by simp
    have "(z mod n + 1) div n = 0" using r lt by (simp add: div_pos_pos_trivial)
    moreover have "(z mod n + 1) mod n = z mod n + 1" using r lt by (simp add: mod_pos_pos_trivial)
    ultimately show ?thesis using d m r by simp
  qed
qed

lemma DayFromYear_Suc: "DayFromYear (y + 1) = DayFromYear y + DaysInYear y"
proof -
  have s4: "y + 1 - 1969 = (y - 1969) + 1" and s100: "y + 1 - 1901 = (y - 1901) + 1"
    and s400: "y + 1 - 1601 = (y - 1601) + 1" by simp_all
  have m4: "(y - 1969 + 1) mod 4 = y mod 4"
  proof -
    have "y - 1969 + 1 = y + (- 492) * 4" by simp
    then show ?thesis by (simp only: mod_mult_self1)
  qed
  have m100: "(y - 1901 + 1) mod 100 = y mod 100"
  proof -
    have "y - 1901 + 1 = y + (- 19) * 100" by simp
    then show ?thesis by (simp only: mod_mult_self1)
  qed
  have m400: "(y - 1601 + 1) mod 400 = y mod 400"
  proof -
    have "y - 1601 + 1 = y + (- 4) * 400" by simp
    then show ?thesis by (simp only: mod_mult_self1)
  qed
  have d4: "(y + 1 - 1969) div 4 = (y - 1969) div 4 + (if y mod 4 = 0 then 1 else 0)"
    unfolding s4 using div_succ[of 4 "y - 1969", unfolded m4] by simp
  have d100: "(y + 1 - 1901) div 100 = (y - 1901) div 100 + (if y mod 100 = 0 then 1 else 0)"
    unfolding s100 using div_succ[of 100 "y - 1901", unfolded m100] by simp
  have d400: "(y + 1 - 1601) div 400 = (y - 1601) div 400 + (if y mod 400 = 0 then 1 else 0)"
    unfolding s400 using div_succ[of 400 "y - 1601", unfolded m400] by simp
  have c100: "y mod 100 = 0 \<Longrightarrow> y mod 4 = 0"
    using mod_mod_cancel[of 4 100 y] by simp
  have c400: "y mod 400 = 0 \<Longrightarrow> y mod 100 = 0"
    using mod_mod_cancel[of 100 400 y] by simp
  have "DayFromYear (y + 1) =
          365 * (y + 1 - 1970) + (y + 1 - 1969) div 4 - (y + 1 - 1901) div 100
            + (y + 1 - 1601) div 400"
    by (simp only: DayFromYear_def)
  also have "\<dots> = DayFromYear y + (365 + (if y mod 4 = 0 then 1 else 0)
                 - (if y mod 100 = 0 then 1 else 0) + (if y mod 400 = 0 then 1 else 0))"
    by (simp only: d4 d100 d400 DayFromYear_def) simp
  also have "365 + (if y mod 4 = 0 then 1 else 0) - (if y mod 100 = 0 then 1 else 0)
                 + (if y mod 400 = 0 then 1 else 0) = DaysInYear y"
    using c100 c400 by (auto simp: DaysInYear_def)
  finally show ?thesis .
qed

lemma DaysInYear_bounds: "365 \<le> DaysInYear y" "DaysInYear y \<le> 366"
  by (simp_all add: DaysInYear_def)

termination yearUp
proof (relation "measure (\<lambda>(d, y). nat (d + 1 - DayFromYear (y + 1)))")
  show "wf (measure (\<lambda>(d, y). nat (d + 1 - DayFromYear (y + 1))))" by simp
next
  fix d y :: int
  assume le: "DayFromYear (y + 1) \<le> d"
  have step: "DayFromYear (y + 1 + 1) = DayFromYear (y + 1) + DaysInYear (y + 1)"
    by (rule DayFromYear_Suc)
  have pos: "365 \<le> DaysInYear (y + 1)" by (rule DaysInYear_bounds)
  have "nat (d + 1 - DayFromYear (y + 1 + 1)) < nat (d + 1 - DayFromYear (y + 1))"
    using le step pos by linarith
  then show "((d, y + 1), (d, y)) \<in> measure (\<lambda>(d, y). nat (d + 1 - DayFromYear (y + 1)))"
    by (simp only: in_measure prod.case)
qed

declare yearUp.simps [simp del]

definition YearFromDay :: "int \<Rightarrow> int" where
  "YearFromDay d = yearUp d (1970 + (if 0 \<le> d then d div 366 else d div 365))"

definition YearFromTime :: "int \<Rightarrow> int" where
  "YearFromTime t = YearFromDay (Day t)"

definition DayWithinYear :: "int \<Rightarrow> int" where
  "DayWithinYear t = Day t - DayFromYear (YearFromTime t)"

definition InLeapYear :: "int \<Rightarrow> int" where
  "InLeapYear t = (if DaysInYear (YearFromTime t) = 366 then 1 else 0)"

definition MonthFromTime :: "int \<Rightarrow> int" where
  "MonthFromTime t =
     (let d = DayWithinYear t; l = InLeapYear t
      in if d < 31 then 0
         else if d < 59 + l then 1
         else if d < 90 + l then 2
         else if d < 120 + l then 3
         else if d < 151 + l then 4
         else if d < 181 + l then 5
         else if d < 212 + l then 6
         else if d < 243 + l then 7
         else if d < 273 + l then 8
         else if d < 304 + l then 9
         else if d < 334 + l then 10
         else 11)"


text \<open>The day number of the first day of month \<open>mn\<close> (0 to 11) within a year.\<close>

definition monthStart :: "int \<Rightarrow> int \<Rightarrow> int" where
  "monthStart mn l =
     (if mn = 0 then 0
      else if mn = 1 then 31
      else [59, 90, 120, 151, 181, 212, 243, 273, 304, 334] ! nat (mn - 2) + l)"

definition MakeDay :: "int \<Rightarrow> int \<Rightarrow> int \<Rightarrow> int" where
  "MakeDay year month date =
     (let ym = year + month div 12;
          mn = month mod 12
      in DayFromYear ym + monthStart mn (if DaysInYear ym = 366 then 1 else 0) + date - 1)"

definition TimeClip :: "int \<Rightarrow> jsdate" where
  "TimeClip t = (if \<bar>t\<bar> > 8640000000000000 then InvalidDate else TimeValue t)"

text \<open>
  \<^verbatim>\<open>new Date(y, m, d, 0, 0, 0)\<close>: NaN in any component gives an invalid date; a year from
  0 to 99 stands for 1900 plus that year; month and day beyond their ranges carry over.
\<close>

definition fullYear :: "int \<Rightarrow> int" where
  "fullYear y = (if 0 \<le> y \<and> y \<le> 99 then 1900 + y else y)"

definition newDate :: "int option \<Rightarrow> int option \<Rightarrow> int option \<Rightarrow> jsdate" where
  "newDate y m d =
     (case (y, m, d) of
        (Some yv, Some mv, Some dv) \<Rightarrow>
          (let yr = fullYear yv
           in TimeClip (MakeDay yr mv dv * msPerDay))
      | _ \<Rightarrow> InvalidDate)"



fun getFullYear :: "jsdate \<Rightarrow> int option" where
  "getFullYear InvalidDate = None"
| "getFullYear (TimeValue t) = Some (YearFromTime t)"

fun getMonth :: "jsdate \<Rightarrow> int option" where
  "getMonth InvalidDate = None"
| "getMonth (TimeValue t) = Some (MonthFromTime t)"


text \<open>A number in a template literal or under \<^verbatim>\<open>String\<close>; \<^verbatim>\<open>padStart\<close>.\<close>

fun numToString :: "int option \<Rightarrow> string" where
  "numToString None = ''NaN''"
| "numToString (Some n) = showInt n"

definition padStart :: "nat \<Rightarrow> char \<Rightarrow> string \<Rightarrow> string" where
  "padStart n c s = replicate (n - length s) c @ s"

text \<open>\<^verbatim>\<open>`${d.getFullYear()}-${String(d.getMonth() + 1).padStart(2, '0')}`\<close>\<close>

definition monthKey :: "jsdate \<Rightarrow> string" where
  "monthKey d =
     numToString (getFullYear d) @ ''-'' @
     padStart 2 (CHR ''0'') (numToString (map_option (\<lambda>m. m + 1) (getMonth d)))"

subsection \<open>parseYMD\<close>

text \<open>\<^verbatim>\<open>str.split(/[\/\-]/)\<close>: the pieces between the separators; one piece when there is none.\<close>

definition isSeparator :: "char \<Rightarrow> bool" where
  "isSeparator c \<longleftrightarrow> c = CHR ''/'' \<or> c = CHR ''-''"

fun split :: "(char \<Rightarrow> bool) \<Rightarrow> string \<Rightarrow> string list" where
  "split p [] = [[]]"
| "split p (c # cs) =
     (if p c then [] # split p cs
      else (case split p cs of
              [] \<Rightarrow> [[c]]
            | piece # pieces \<Rightarrow> (c # piece) # pieces))"

text \<open>
  \<^verbatim>\<open>parseInt(s, 10)\<close>: leading white space, a sign, then the digits up to the first
  character that is not one; NaN without a digit.
\<close>

definition digitsValue :: "string \<Rightarrow> int" where
  "digitsValue ds = foldl (\<lambda>acc c. 10 * acc + (of_char c - 48)) 0 ds"

definition parseInt :: "string \<Rightarrow> int option" where
  "parseInt s =
     (let t = dropWhile isWhiteSpace s;
          neg = (case t of [] \<Rightarrow> False | c # _ \<Rightarrow> c = CHR ''-'');
          u = (case t of [] \<Rightarrow> [] | c # r \<Rightarrow> if c = CHR ''-'' \<or> c = CHR ''+'' then r else t);
          ds = takeWhile isDigit u
      in if ds = [] then None
         else Some (if neg then - digitsValue ds else digitsValue ds))"

definition parseYMD :: "runtime \<Rightarrow> cell \<Rightarrow> jsdate option" where
  "parseYMD rt val =
     (case val of
        CDate dt \<Rightarrow> Some dt
      | _ \<Rightarrow>
          if falsy val then None
          else
            let str = trim (String rt val);
                parts = split isSeparator str;
                fromParts =
                  (if length parts = 3 then
                     let y = parseInt (parts ! 0);
                         m = map_option (\<lambda>n. n - 1) (parseInt (parts ! 1));
                         d = parseInt (parts ! 2);
                         date = newDate y m d
                     in if date \<noteq> InvalidDate then Some date else None
                   else None)
            in case fromParts of
                 Some date \<Rightarrow> Some date
               | None \<Rightarrow>
                   (let fallback = dateParse rt str
                    in if fallback = InvalidDate then None else Some fallback))"

subsection \<open>parseExcel: which tabs are read\<close>

text \<open>
  The workbook as the spreadsheet library hands it over: the tab names in order, and for
  each name the grid that \<^verbatim>\<open>sheet_to_json\<close> makes of the tab. \<^verbatim>\<open>/^\d{8}$/\<close> is matched
  by taking eight digits and asking for the end of the string.
\<close>

record workbook =
  SheetNames :: "string list"
  Sheets :: "string \<Rightarrow> row list"

fun takeDigits :: "nat \<Rightarrow> string \<Rightarrow> string option" where
  "takeDigits 0 s = Some s"
| "takeDigits (Suc n) [] = None"
| "takeDigits (Suc n) (c # cs) = (if isDigit c then takeDigits n cs else None)"

definition rosterTabPattern :: "string \<Rightarrow> bool" where
  "rosterTabPattern s = (case takeDigits 8 s of Some r \<Rightarrow> r = [] | None \<Rightarrow> False)"

definition targetSheetNames :: "string \<Rightarrow> workbook \<Rightarrow> string list" where
  "targetSheetNames fileName wb =
     (let isCsv = endsWith (toLowerCase fileName) ''.csv'';
          hasRosterTabs = list_ex (\<lambda>n. rosterTabPattern (trim n)) (SheetNames wb)
      in if hasRosterTabs \<and> \<not> isCsv
         then filter (\<lambda>n. rosterTabPattern (trim n)) (SheetNames wb)
         else SheetNames wb)"

definition parseExcel :: "string \<Rightarrow> workbook \<Rightarrow> sheet list" where
  "parseExcel fileName wb =
     map (\<lambda>n. \<lparr>name = n, data = Sheets wb n\<rparr>) (targetSheetNames fileName wb)"

subsection \<open>findMajorityMonth\<close>

text \<open>
  \<^verbatim>\<open>monthCounts\<close> is an object used as a dictionary. Its keys all contain a hyphen, so
  none is an array index and \<^verbatim>\<open>Object.entries\<close> lists them in the order of their first
  insertion: an association list that a new key extends at the end.
\<close>

fun bump :: "string \<Rightarrow> (string \<times> nat) list \<Rightarrow> (string \<times> nat) list" where
  "bump k [] = [(k, 1)]"
| "bump k ((k', n) # rest) = (if k = k' then (k', n + 1) # rest else (k', n) # bump k rest)"

definition countRow :: "runtime \<Rightarrow> (string \<times> nat) list \<Rightarrow> nat \<times> row \<Rightarrow> (string \<times> nat) list" where
  "countRow rt monthCounts ir =
     (case ir of (index, r) \<Rightarrow>
        if index = 0 then monthCounts
        else (case parseYMD rt (at r 2) of
                None \<Rightarrow> monthCounts
              | Some d \<Rightarrow> bump (monthKey d) monthCounts))"

definition countSheet :: "runtime \<Rightarrow> (string \<times> nat) list \<Rightarrow> sheet \<Rightarrow> (string \<times> nat) list" where
  "countSheet rt monthCounts sh = foldl (countRow rt) monthCounts (enumerate 0 (data sh))"

definition pickMax :: "nat \<times> string option \<Rightarrow> string \<times> nat \<Rightarrow> nat \<times> string option" where
  "pickMax acc entry =
     (case acc of (maxCount, majority) \<Rightarrow>
        case entry of (month, count) \<Rightarrow>
          if count > maxCount then (count, Some month) else (maxCount, majority))"

definition findMajorityMonth :: "runtime \<Rightarrow> sheet list \<Rightarrow> string option" where
  "findMajorityMonth rt sheets =
     (let monthCounts = foldl (countSheet rt) [] sheets
      in snd (foldl pickMax (0, None) monthCounts))"

text \<open>
  In the words of the specification: the month keys of the parseable dates in the
  date-bearing column, over all sheets and rows except each sheet's header row, in
  scan order. The tally of a list of keys is the dictionary after counting them one by
  one.
\<close>

definition dataMonthKeys :: "runtime \<Rightarrow> sheet list \<Rightarrow> string list" where
  "dataMonthKeys rt sheets =
     concat (map (\<lambda>sh. List.map_filter (\<lambda>r. map_option monthKey (parseYMD rt (at r 2)))
                          (tl (data sh))) sheets)"

definition tally :: "(string \<times> nat) list \<Rightarrow> string list \<Rightarrow> (string \<times> nat) list" where
  "tally monthCounts ks = foldl (\<lambda>mc k. bump k mc) monthCounts ks"

subsection \<open>cleanRosterData\<close>

definition keepRow :: "runtime \<Rightarrow> string \<Rightarrow> nat \<Rightarrow> row \<Rightarrow> bool" where
  "keepRow rt majorityMonth index r =
     (if index = 0 then True
      else (case parseYMD rt (at r 2) of
              None \<Rightarrow> False
            | Some d \<Rightarrow> monthKey d = majorityMonth))"

text \<open>\<^verbatim>\<open>while (truncated.length < 8) truncated.push(null)\<close>\<close>

function padNull :: "row \<Rightarrow> row" where
  "padNull truncated = (if length truncated < 8 then padNull (truncated @ [CNull]) else truncated)"
  by pat_completeness auto

termination padNull
  by (relation "measure (\<lambda>truncated. 8 - length truncated)") auto

declare padNull.simps [simp del]

definition finalizeRow :: "runtime \<Rightarrow> nat \<Rightarrow> row \<Rightarrow> row" where
  "finalizeRow rt rIdx r =
     (let truncated = padNull (take 8 r)
      in if rIdx > 0 \<and> \<not> falsy (at truncated 2)
         then (case parseYMD rt (at truncated 2) of
                 Some d \<Rightarrow> truncated[2 := CDate d]
               | None \<Rightarrow> truncated)
         else truncated)"

definition cleanSheet :: "runtime \<Rightarrow> string \<Rightarrow> sheet \<Rightarrow> sheet" where
  "cleanSheet rt majorityMonth sh =
     (let truncatedRows = take 72 (data sh);
          cleanedRows = filteri (keepRow rt majorityMonth) truncatedRows;
          finalizedRows = mapi (finalizeRow rt) cleanedRows
      in sh\<lparr>data := finalizedRows\<rparr>)"

definition cleanRosterData :: "runtime \<Rightarrow> sheet list \<Rightarrow> string \<Rightarrow> sheet list" where
  "cleanRosterData rt sheets majorityMonth =
     filter (\<lambda>sh. length (data sh) > 1) (map (cleanSheet rt majorityMonth) sheets)"

text \<open>
  In the words of the specification: a data row survives when its date-bearing cell parses
  to a date whose month key is the target.
\<close>

definition dateInMonth :: "runtime \<Rightarrow> string \<Rightarrow> row \<Rightarrow> bool" where
  "dateInMonth rt majorityMonth r =
     (case parseYMD rt (at r 2) of None \<Rightarrow> False | Some d \<Rightarrow> monthKey d = majorityMonth)"

subsection \<open>Concrete inputs for the examples\<close>

text \<open>
  A runtime whose string parser recognises nothing; a header row; a data row with a
  given date cell (index 2) and name cell (index 5).
\<close>

definition plainRuntime :: runtime where
  "plainRuntime = \<lparr>dateParse = (\<lambda>s. InvalidDate), dateToString = (\<lambda>d. ''Invalid Date'')\<rparr>"

definition headerRow :: row where
  "headerRow =
     [CStr ''No'', CStr ''Shift'', CStr ''Date'', CStr ''Ward'', CStr ''Post'', CStr ''Name'',
      CStr ''Tel'', CStr ''Remark'']"

definition dataRow :: "cell \<Rightarrow> cell \<Rightarrow> row" where
  "dataRow dateCell nameCell =
     [CStr ''1'', CStr ''AM'', dateCell, CStr ''W5'', CStr ''RN'', nameCell, CNull, CNull]"

text \<open>
  Two sheets: one of March 2024 with a short row, a row of April and a long row, and one
  with a short header and a row of April.
\<close>

definition marchSheet :: sheet where
  "marchSheet =
     \<lparr>name = ''20240301'',
      data = [headerRow,
              [CStr ''1'', CStr ''AM'', CStr ''2024/03/01''],
              dataRow (CStr ''2024/04/02'') (CStr ''Ann Lee''),
              dataRow (CStr ''2024-03-05'') (CStr ''Ann Lee'') @ [CStr ''x'', CStr ''y'']]\<rparr>"

definition aprilSheet :: sheet where
  "aprilSheet =
     \<lparr>name = ''20240401'',
      data = [take 2 headerRow, dataRow (CStr ''2024/04/01'') (CStr ''Ann Lee'')]\<rparr>"

text \<open>
  A sheet whose header holds a date of May, with data rows of March, April, no date,
  April and March.
\<close>

definition tieSheet :: sheet where
  "tieSheet =
     \<lparr>name = ''20240301'',
      data = [[CStr ''No'', CStr ''Shift'', CStr ''2024/05/01''],
              dataRow (CStr ''2024/03/01'') (CStr ''Ann Lee''),
              dataRow (CStr ''2024/04/01'') (CStr ''Ann Lee''),
              dataRow (CStr ''n/a'') (CStr ''Ann Lee''),
              dataRow (CStr ''2024/04/02'') (CStr ''Ann Lee''),
              dataRow (CStr ''2024/03/02'') (CStr ''Ann Lee'')]\<rparr>"

text \<open>
  A sheet of 73 rows: the header, 70 rows of April, a row of March at index 71 and a row
  of March at index 72.
\<close>

definition longSheet :: sheet where
  "longSheet =
     \<lparr>name = ''20240301'',
      data = headerRow # replicate 70 (dataRow (CStr ''2024/04/01'') (CStr ''Ann Lee''))
               @ [dataRow (CStr ''2024/03/01'') (CStr ''Ann Lee''),
                  dataRow (CStr ''2024/03/02'') (CStr ''Bob Ng'')]\<rparr>"

section \<open>Properties of updateNames\<close>


lemma length_mapi: "length (mapi f xs) = length xs"
  by (simp add: mapi_def)

lemma nth_mapi: "i < length xs \<Longrightarrow> mapi f xs ! i = f i (xs ! i)"
  by (simp add: mapi_def nth_enumerate_eq)

lemma length_updateNames: "length (updateNames rt sheets staffList) = length sheets"
  by (simp add: updateNames_def)

lemma name_updateNames: "map name (updateNames rt sheets staffList) = map name sheets"
  by (simp add: updateNames_def)

lemma data_updateNames:
  "si < length sheets \<Longrightarrow>
   data (updateNames rt sheets staffList ! si) =
     mapi (updateRow rt (staffFullNames rt staffList)) (data (sheets ! si))"
  by (simp add: updateNames_def)

lemma row_updateNames:
  "si < length sheets \<Longrightarrow> ri < length (data (sheets ! si)) \<Longrightarrow>
   data (updateNames rt sheets staffList ! si) ! ri =
     updateRow rt (staffFullNames rt staffList) ri (data (sheets ! si) ! ri)"
  by (simp add: data_updateNames nth_mapi)

lemma at_update: "at (r[i := v]) j = (if j = i \<and> i < length r then v else at r j)"
  by (simp add: at_def)

lemma at_defined_inside: "at r i \<noteq> CUndefined \<Longrightarrow> i < length r"
  by (simp add: at_def split: if_splits)

lemma updateRow_cases:
  "updateRow rt staff ri r = r \<or> (\<exists>sn. at r 5 \<noteq> CNull \<and> at r 5 \<noteq> CUndefined \<and> 0 < ri \<and> updateRow rt staff ri r = r[5 := CStr sn])"
  by (auto simp: updateRow_def Let_def split: option.splits)

lemma length_updateRow: "length (updateRow rt staff ri r) = length r"
  using updateRow_cases[of rt staff ri r] by auto

lemma at_updateRow_other: "j \<noteq> 5 \<Longrightarrow> at (updateRow rt staff ri r) j = at r j"
  using updateRow_cases[of rt staff ri r] by (auto simp: at_update)

lemma updateRow_header: "updateRow rt staff 0 r = r"
  by (simp add: updateRow_def)

lemma updateRow_blank: "at r 5 = CNull \<or> at r 5 = CUndefined \<Longrightarrow> updateRow rt staff ri r = r"
  using updateRow_cases[of rt staff ri r] by auto

lemma includes_str_sublist: "includes_str hay needle \<longleftrightarrow> sublist needle hay"
  by (induction hay) (auto simp: sublist_Cons_right)

lemma staffFullNames_nonempty: "sn \<in> set (staffFullNames rt staffList) \<Longrightarrow> sn \<noteq> []"
  by (auto simp: staffFullNames_def)

lemma toLowerCase_Nil_iff: "toLowerCase s = [] \<longleftrightarrow> s = []"
  by (simp add: toLowerCase_def)

text \<open>
  Claim C2, as the code has it. A data row's name cell that is neither null nor undefined,
  whose cleaned value (annotations in parentheses removed, trimmed) is not empty, and for
  which no alias rule fires, no staff name is equal to it and none contains it (both
  without regard to case), is not written at all: the row comes back as it was, so the
  cell keeps its original raw value, annotation included, and not the cleaned string.
\<close>

theorem updateNames_unmatched_keeps_raw:
  assumes "si < length sheets" and "0 < ri" and "ri < length (data (sheets ! si))"
    and "r = data (sheets ! si) ! ri"
    and "staff = staffFullNames rt staffList"
    and "c = cleanedName rt (at r 5)"
    and "at r 5 \<noteq> CNull" and "at r 5 \<noteq> CUndefined" and "c \<noteq> []"
    and "\<not> (toLowerCase c = ''clara ckm'' \<and>
            (\<exists>sn\<in>set staff. includes_str (toLowerCase sn) ''clara cheung ka man''))"
    and "\<not> (toLowerCase c = ''clara cheung'' \<and>
            (\<exists>sn\<in>set staff. includes_str (toLowerCase sn) ''clara cheung wing kum''))"
    and "\<forall>sn\<in>set staff. toLowerCase sn \<noteq> toLowerCase c"
    and "\<forall>sn\<in>set staff. \<not> includes_str (toLowerCase sn) (toLowerCase c)"
  shows "data (updateNames rt sheets staffList ! si) ! ri = r"
proof -
  have a1: "(if toLowerCase c = ''clara ckm''
             then find (\<lambda>sn. includes_str (toLowerCase sn) ''clara cheung ka man'') staff
             else None) = None"
    using assms(10) by (auto simp: find_None_iff)
  have a2: "(if toLowerCase c = ''clara cheung''
             then find (\<lambda>sn. includes_str (toLowerCase sn) ''clara cheung wing kum'') staff
             else None) = None"
    using assms(11) by (auto simp: find_None_iff)
  have e: "find (\<lambda>sn. toLowerCase sn = toLowerCase c) staff = None"
    using assms(12) by (simp add: find_None_iff)
  have p: "find (\<lambda>sn. includes_str (toLowerCase sn) (toLowerCase c)) staff = None"
    using assms(13) by (simp add: find_None_iff)
  have "updateRow rt staff ri r = r"
    using assms(2,7,8,9) a1 a2 e p
    by (simp add: updateRow_def Let_def assms(6)[symmetric])
  then show ?thesis
    using assms(1,3) by (simp add: row_updateNames assms(4,5))
qed

text \<open>
  Claim C5, with the alias rules taken into account. When the cleaned name of a data
  row's name cell is equal, without regard to case, to some staff name, and neither alias
  rule fires for it, the cell becomes the first such staff name in list order; staff
  names that merely contain the cleaned name, also earlier ones, do not matter.
\<close>

theorem updateNames_exact_match_wins:
  assumes "si < length sheets" and "0 < ri" and "ri < length (data (sheets ! si))"
    and "r = data (sheets ! si) ! ri"
    and "staff = staffFullNames rt staffList"
    and "c = cleanedName rt (at r 5)"
    and "at r 5 \<noteq> CNull" and "at r 5 \<noteq> CUndefined"
    and "find (\<lambda>sn. toLowerCase sn = toLowerCase c) staff = Some exactMatch"
    and "\<not> (toLowerCase c = ''clara ckm'' \<and>
            (\<exists>sn\<in>set staff. includes_str (toLowerCase sn) ''clara cheung ka man''))"
    and "\<not> (toLowerCase c = ''clara cheung'' \<and>
            (\<exists>sn\<in>set staff. includes_str (toLowerCase sn) ''clara cheung wing kum''))"
  shows "at (data (updateNames rt sheets staffList ! si) ! ri) 5 = CStr exactMatch"
proof -
  have a1: "(if toLowerCase c = ''clara ckm''
             then find (\<lambda>sn. includes_str (toLowerCase sn) ''clara cheung ka man'') staff
             else None) = None"
    using assms(10) by (auto simp: find_None_iff)
  have a2: "(if toLowerCase c = ''clara cheung''
             then find (\<lambda>sn. includes_str (toLowerCase sn) ''clara cheung wing kum'') staff
             else None) = None"
    using assms(11) by (auto simp: find_None_iff)
  from assms(9) have "exactMatch \<in> set staff" and low: "toLowerCase exactMatch = toLowerCase c"
    by (auto simp: find_Some_iff)
  then have "exactMatch \<noteq> []"
    using staffFullNames_nonempty assms(5) by blast
  with low have ne: "c \<noteq> []"
    by (metis toLowerCase_Nil_iff)
  have inside: "5 < length r"
    using assms(8) by (rule at_defined_inside)
  have "updateRow rt staff ri r = r[5 := CStr exactMatch]"
    using assms(2,7,8,9) a1 a2 ne
    by (simp add: updateRow_def Let_def assms(6)[symmetric])
  then show ?thesis
    using assms(1,3) inside by (simp add: row_updateNames assms(4,5) at_update)
qed

text \<open>
  Claim C6. A data row's name cell whose cleaned value is \<open>clara ckm\<close> in lower case
  becomes the first staff name that contains \<open>clara cheung ka man\<close> (without regard to
  case); when there is none, the first staff name equal to the cleaned value, else the
  first one containing it, else the cell stays as it was.
\<close>

theorem updateNames_clara_ckm:
  assumes "si < length sheets" and "0 < ri" and "ri < length (data (sheets ! si))"
    and "r = data (sheets ! si) ! ri"
    and "staff = staffFullNames rt staffList"
    and "at r 5 \<noteq> CNull" and "at r 5 \<noteq> CUndefined"
    and "toLowerCase (cleanedName rt (at r 5)) = ''clara ckm''"
  shows "at (data (updateNames rt sheets staffList ! si) ! ri) 5 =
           (case find (\<lambda>sn. includes_str (toLowerCase sn) ''clara cheung ka man'') staff of
              Some claraMatch \<Rightarrow> CStr claraMatch
            | None \<Rightarrow>
               (case find (\<lambda>sn. toLowerCase sn = ''clara ckm'') staff of
                  Some exactMatch \<Rightarrow> CStr exactMatch
                | None \<Rightarrow>
                   (case find (\<lambda>sn. includes_str (toLowerCase sn) ''clara ckm'') staff of
                      Some partialMatch \<Rightarrow> CStr partialMatch
                    | None \<Rightarrow> at r 5)))"
proof -
  have ne: "cleanedName rt (at r 5) \<noteq> []"
    using assms(8) by (auto simp: toLowerCase_def)
  have inside: "5 < length r"
    using assms(7) by (rule at_defined_inside)
  show ?thesis
    using assms(1,3) inside assms(2,6,7,8) ne
    by (simp add: row_updateNames assms(4,5)[symmetric] updateRow_def Let_def at_update split: option.splits)
qed

text \<open>
  Claim C10. \<^verbatim>\<open>updateNames\<close> returns the same sheets in the same order under the same
  names, with as many rows in each; every row keeps its length, row 0 is returned as it
  is, every cell at an index other than 5 is unchanged, and a row whose cell 5 is null or
  undefined (or missing) is returned as it is.
\<close>

theorem updateNames_frame:
  assumes "si < length sheets" and "ri < length (data (sheets ! si))"
    and "r = data (sheets ! si) ! ri"
    and "r' = data (updateNames rt sheets staffList ! si) ! ri"
  shows "map name (updateNames rt sheets staffList) = map name sheets
       \<and> length (updateNames rt sheets staffList) = length sheets
       \<and> length (data (updateNames rt sheets staffList ! si)) = length (data (sheets ! si))
       \<and> length r' = length r
       \<and> (ri = 0 \<longrightarrow> r' = r)
       \<and> (\<forall>j. j \<noteq> 5 \<longrightarrow> at r' j = at r j)
       \<and> (at r 5 = CNull \<or> at r 5 = CUndefined \<longrightarrow> r' = r)"
proof -
  have r': "r' = updateRow rt (staffFullNames rt staffList) ri r"
    using assms by (simp add: row_updateNames)
  have rows: "length (data (updateNames rt sheets staffList ! si)) = length (data (sheets ! si))"
    using assms(1) by (simp add: data_updateNames length_mapi)
  have len: "length r' = length r"
    unfolding r' by (rule length_updateRow)
  have hdr: "ri = 0 \<longrightarrow> r' = r"
    unfolding r' by (simp add: updateRow_header)
  have other: "\<forall>j. j \<noteq> 5 \<longrightarrow> at r' j = at r j"
    unfolding r' by (simp add: at_updateRow_other)
  have blank: "at r 5 = CNull \<or> at r 5 = CUndefined \<longrightarrow> r' = r"
    unfolding r' using updateRow_blank by blast
  show ?thesis
    using name_updateNames[of rt sheets staffList] length_updateNames[of rt sheets staffList]
      rows len hdr other blank
    by (intro conjI) assumption+
qed


text \<open>
  The theorem at the roster value \<open>J. Smith (am)\<close> with the staff list \<open>Jane Smith\<close>.
\<close>

theorem updateNames_unmatched_keeps_raw_witness:
  "cleanedName plainRuntime (CStr ''J. Smith (am)'') = ''J. Smith''
   \<and> staffFullNames plainRuntime [[CStr ''Jane Smith '']] = [''Jane Smith'']
   \<and> data (updateNames plainRuntime
         [\<lparr>name = ''20240301'',
           data = [headerRow, dataRow (CStr ''2024/03/01'') (CStr ''J. Smith (am)'')]\<rparr>]
         [[CStr ''Jane Smith '']] ! 0) ! 1
       = dataRow (CStr ''2024/03/01'') (CStr ''J. Smith (am)'')"
proof (intro conjI)
  show "data (updateNames plainRuntime
         [\<lparr>name = ''20240301'',
           data = [headerRow, dataRow (CStr ''2024/03/01'') (CStr ''J. Smith (am)'')]\<rparr>]
         [[CStr ''Jane Smith '']] ! 0) ! 1
       = dataRow (CStr ''2024/03/01'') (CStr ''J. Smith (am)'')"
    by (rule updateNames_unmatched_keeps_raw
          [where staff = "[''Jane Smith'']" and c = "''J. Smith''"])
       code_simp+
qed code_simp+

text \<open>
  Claim C2 as stated fails: the cleaned value of \<open>J. Smith (am)\<close> is \<open>J. Smith\<close>, no rule
  matches it against \<open>Jane Smith\<close>, and the cell is still \<open>J. Smith (am)\<close> afterwards.
\<close>

theorem updateNames_unmatched_counterexample:
  "cleanedName plainRuntime (CStr ''J. Smith (am)'') = ''J. Smith''
   \<and> staffFullNames plainRuntime [[CStr ''Jane Smith'']] = [''Jane Smith'']
   \<and> \<not> includes_str (toLowerCase ''Jane Smith'') (toLowerCase ''J. Smith'')
   \<and> at (data (updateNames plainRuntime
         [\<lparr>name = ''20240301'',
           data = [headerRow, dataRow (CStr ''2024/03/01'') (CStr ''J. Smith (am)'')]\<rparr>]
         [[CStr ''Jane Smith'']] ! 0) ! 1) 5
       = CStr ''J. Smith (am)''
   \<and> at (data (updateNames plainRuntime
         [\<lparr>name = ''20240301'',
           data = [headerRow, dataRow (CStr ''2024/03/01'') (CStr ''J. Smith (am)'')]\<rparr>]
         [[CStr ''Jane Smith'']] ! 0) ! 1) 5
       \<noteq> CStr ''J. Smith''"
  by code_simp

text \<open>
  The theorem at \<open>ANN LEE (pm)\<close>: the earlier staff name \<open>Ann Lee Wong\<close> contains the
  cleaned name, the later \<open>Ann Lee\<close> equals it and is chosen.
\<close>

theorem updateNames_exact_match_wins_witness:
  "staffFullNames plainRuntime [[CStr ''Ann Lee Wong''], [CStr ''Ann Lee'']] = [''Ann Lee Wong'', ''Ann Lee'']
   \<and> includes_str (toLowerCase ''Ann Lee Wong'') (toLowerCase ''ANN LEE'')
   \<and> at (data (updateNames plainRuntime
         [\<lparr>name = ''20240301'',
           data = [headerRow, dataRow (CStr ''2024/03/01'') (CStr ''ANN LEE (pm)'')]\<rparr>]
         [[CStr ''Ann Lee Wong''], [CStr ''Ann Lee'']] ! 0) ! 1) 5
       = CStr ''Ann Lee''"
proof (intro conjI)
  show "at (data (updateNames plainRuntime
         [\<lparr>name = ''20240301'',
           data = [headerRow, dataRow (CStr ''2024/03/01'') (CStr ''ANN LEE (pm)'')]\<rparr>]
         [[CStr ''Ann Lee Wong''], [CStr ''Ann Lee'']] ! 0) ! 1) 5
       = CStr ''Ann Lee''"
    by (rule updateNames_exact_match_wins
          [where staff = "[''Ann Lee Wong'', ''Ann Lee'']" and c = "''ANN LEE''"
             and r = "dataRow (CStr ''2024/03/01'') (CStr ''ANN LEE (pm)'')"])
       code_simp+
qed code_simp+

text \<open>
  Claim C5 as stated fails where an alias rule fires: \<open>Clara CKM\<close> is equal to the first
  staff name, yet the cell becomes the staff name that contains \<open>clara cheung ka man\<close>.
\<close>

theorem updateNames_exact_match_counterexample:
  "cleanedName plainRuntime (CStr ''Clara CKM'') = ''Clara CKM''
   \<and> find (\<lambda>sn. toLowerCase sn = toLowerCase ''Clara CKM'')
        (staffFullNames plainRuntime [[CStr ''Clara CKM''], [CStr ''Clara Cheung Ka Man'']])
       = Some ''Clara CKM''
   \<and> at (data (updateNames plainRuntime
         [\<lparr>name = ''20240301'',
           data = [headerRow, dataRow (CStr ''2024/03/01'') (CStr ''Clara CKM'')]\<rparr>]
         [[CStr ''Clara CKM''], [CStr ''Clara Cheung Ka Man'']] ! 0) ! 1) 5
       = CStr ''Clara Cheung Ka Man''"
  by code_simp

text \<open>
  The theorem at \<open>Clara CKM\<close> with a staff list that has the alias target; and the same
  cell with a staff list that has not, where the substring rule applies.
\<close>

theorem updateNames_clara_ckm_witness:
  "at (data (updateNames plainRuntime
         [\<lparr>name = ''20240301'',
           data = [headerRow, dataRow (CStr ''2024/03/01'') (CStr ''Clara CKM'')]\<rparr>]
         [[CStr ''Clara Cheung Wing Kum''], [CStr ''Ms Clara Cheung Ka Man'']] ! 0) ! 1) 5
       = CStr ''Ms Clara Cheung Ka Man''
   \<and> at (data (updateNames plainRuntime
         [\<lparr>name = ''20240301'',
           data = [headerRow, dataRow (CStr ''2024/03/01'') (CStr ''Clara CKM'')]\<rparr>]
         [[CStr ''Clara Cheung Wing Kum''], [CStr ''Sister Clara CKM'']] ! 0) ! 1) 5
       = CStr ''Sister Clara CKM''"
proof (intro conjI)
  have "at (data (updateNames plainRuntime
         [\<lparr>name = ''20240301'',
           data = [headerRow, dataRow (CStr ''2024/03/01'') (CStr ''Clara CKM'')]\<rparr>]
         [[CStr ''Clara Cheung Wing Kum''], [CStr ''Ms Clara Cheung Ka Man'']] ! 0) ! 1) 5
       = (case find (\<lambda>sn. includes_str (toLowerCase sn) ''clara cheung ka man'')
                 [''Clara Cheung Wing Kum'', ''Ms Clara Cheung Ka Man''] of
              Some claraMatch \<Rightarrow> CStr claraMatch
            | None \<Rightarrow>
               (case find (\<lambda>sn. toLowerCase sn = ''clara ckm'')
                       [''Clara Cheung Wing Kum'', ''Ms Clara Cheung Ka Man''] of
                  Some exactMatch \<Rightarrow> CStr exactMatch
                | None \<Rightarrow>
                   (case find (\<lambda>sn. includes_str (toLowerCase sn) ''clara ckm'')
                           [''Clara Cheung Wing Kum'', ''Ms Clara Cheung Ka Man''] of
                      Some partialMatch \<Rightarrow> CStr partialMatch
                    | None \<Rightarrow> at (dataRow (CStr ''2024/03/01'') (CStr ''Clara CKM'')) 5)))"
    by (rule updateNames_clara_ckm) code_simp+
  also have "\<dots> = CStr ''Ms Clara Cheung Ka Man''"
    by code_simp
  finally show "at (data (updateNames plainRuntime
         [\<lparr>name = ''20240301'',
           data = [headerRow, dataRow (CStr ''2024/03/01'') (CStr ''Clara CKM'')]\<rparr>]
         [[CStr ''Clara Cheung Wing Kum''], [CStr ''Ms Clara Cheung Ka Man'']] ! 0) ! 1) 5
       = CStr ''Ms Clara Cheung Ka Man''" .
qed code_simp

text \<open>
  The theorem at a row whose name cell is rewritten: the date cell and the length stay.
\<close>

theorem updateNames_frame_witness:
  "length (dataRow (CStr ''2024/03/01'') (CStr ''ANN LEE (pm)'')) = 8
   \<and> at (data (updateNames plainRuntime
         [\<lparr>name = ''20240301'',
           data = [headerRow, dataRow (CStr ''2024/03/01'') (CStr ''ANN LEE (pm)'')]\<rparr>]
         [[CStr ''Ann Lee'']] ! 0) ! 1) 5 = CStr ''Ann Lee''
   \<and> at (data (updateNames plainRuntime
         [\<lparr>name = ''20240301'',
           data = [headerRow, dataRow (CStr ''2024/03/01'') (CStr ''ANN LEE (pm)'')]\<rparr>]
         [[CStr ''Ann Lee'']] ! 0) ! 1) 2 = CStr ''2024/03/01''
   \<and> length (data (updateNames plainRuntime
         [\<lparr>name = ''20240301'',
           data = [headerRow, dataRow (CStr ''2024/03/01'') (CStr ''ANN LEE (pm)'')]\<rparr>]
         [[CStr ''Ann Lee'']] ! 0) ! 1) = 8"
proof -
  have f: "length (data (updateNames plainRuntime
         [\<lparr>name = ''20240301'',
           data = [headerRow, dataRow (CStr ''2024/03/01'') (CStr ''ANN LEE (pm)'')]\<rparr>]
         [[CStr ''Ann Lee'']] ! 0) ! 1) = length (dataRow (CStr ''2024/03/01'') (CStr ''ANN LEE (pm)''))
    \<and> (\<forall>j. j \<noteq> 5 \<longrightarrow> at (data (updateNames plainRuntime
         [\<lparr>name = ''20240301'',
           data = [headerRow, dataRow (CStr ''2024/03/01'') (CStr ''ANN LEE (pm)'')]\<rparr>]
         [[CStr ''Ann Lee'']] ! 0) ! 1) j = at (dataRow (CStr ''2024/03/01'') (CStr ''ANN LEE (pm)'')) j)"
    using updateNames_frame[of 0 "[\<lparr>name = ''20240301'',
           data = [headerRow, dataRow (CStr ''2024/03/01'') (CStr ''ANN LEE (pm)'')]\<rparr>]" 1
           "dataRow (CStr ''2024/03/01'') (CStr ''ANN LEE (pm)'')" _ plainRuntime "[[CStr ''Ann Lee'']]"]
    by simp
  have l: "length (dataRow (CStr ''2024/03/01'') (CStr ''ANN LEE (pm)'')) = 8"
    by code_simp
  have c2: "at (dataRow (CStr ''2024/03/01'') (CStr ''ANN LEE (pm)'')) 2 = CStr ''2024/03/01''"
    by code_simp
  have c5: "at (data (updateNames plainRuntime
         [\<lparr>name = ''20240301'',
           data = [headerRow, dataRow (CStr ''2024/03/01'') (CStr ''ANN LEE (pm)'')]\<rparr>]
         [[CStr ''Ann Lee'']] ! 0) ! 1) 5 = CStr ''Ann Lee''"
    by code_simp
  from f l c2 c5 show ?thesis by simp
qed

section \<open>Properties of parseExcel\<close>

lemma digit_chars:
  "char_of (48 :: int) = CHR ''0''" "char_of (49 :: int) = CHR ''1''"
  "char_of (50 :: int) = CHR ''2''" "char_of (51 :: int) = CHR ''3''"
  "char_of (52 :: int) = CHR ''4''" "char_of (53 :: int) = CHR ''5''"
  "char_of (54 :: int) = CHR ''6''" "char_of (55 :: int) = CHR ''7''"
  "char_of (56 :: int) = CHR ''8''" "char_of (57 :: int) = CHR ''9''"
  by code_simp+

lemma isDigit_iff: "isDigit c \<longleftrightarrow> c \<in> set ''0123456789''"
proof
  assume "isDigit c"
  then have "(of_char c :: int) \<in> {48..57}" by (simp add: isDigit_def)
  then have "(of_char c :: int) \<in> {48, 49, 50, 51, 52, 53, 54, 55, 56, 57}"
    by (simp only: atLeastAtMost_iff insert_iff empty_iff) arith
  then have "char_of (of_char c :: int) \<in> char_of ` {48 :: int, 49, 50, 51, 52, 53, 54, 55, 56, 57}"
    by (rule imageI)
  then show "c \<in> set ''0123456789''"
    by (simp only: char_of_char image_insert image_empty digit_chars list.set)
next
  assume "c \<in> set ''0123456789''"
  then show "isDigit c" by (auto simp: isDigit_def)
qed

lemma takeDigits_Some_iff:
  "takeDigits n s = Some r \<longleftrightarrow> (\<exists>ds. s = ds @ r \<and> length ds = n \<and> (\<forall>c\<in>set ds. isDigit c))"
proof (induction n s rule: takeDigits.induct)
  case (1 s)
  then show ?case by auto
next
  case (2 n)
  then show ?case by auto
next
  case (3 n c cs)
  show ?case
  proof (cases "isDigit c")
    case True
    with 3 show ?thesis
      by (auto simp: Cons_eq_append_conv length_Suc_conv)
  next
    case False
    then show ?thesis
      by (auto simp: Cons_eq_append_conv length_Suc_conv)
  qed
qed

lemma rosterTabPattern_iff:
  "rosterTabPattern s \<longleftrightarrow> length s = 8 \<and> (\<forall>c\<in>set s. c \<in> set ''0123456789'')"
proof -
  have "rosterTabPattern s \<longleftrightarrow> takeDigits 8 s = Some []"
    by (auto simp: rosterTabPattern_def split: option.splits)
  also have "\<dots> \<longleftrightarrow> length s = 8 \<and> (\<forall>c\<in>set s. isDigit c)"
    by (auto simp: takeDigits_Some_iff)
  finally show ?thesis by (simp only: isDigit_iff)
qed

lemma endsWith_suffix: "endsWith s x \<longleftrightarrow> suffix x s"
  by (simp add: endsWith_def suffix_to_prefix)

text \<open>
  Claim C7. \<^verbatim>\<open>parseExcel\<close> reads exactly the tabs whose trimmed name is eight digits when
  the file name does not end in \<open>.csv\<close> (in any case of letters) and some tab has such a
  name; otherwise it reads all tabs. Each tab read becomes a sheet under the tab's name.
\<close>

theorem parseExcel_tab_selection:
  "parseExcel fileName wb =
     map (\<lambda>n. \<lparr>name = n, data = Sheets wb n\<rparr>)
       (if \<not> suffix ''.csv'' (toLowerCase fileName)
           \<and> (\<exists>n\<in>set (SheetNames wb).
                 length (trim n) = 8 \<and> (\<forall>c\<in>set (trim n). c \<in> set ''0123456789''))
        then filter (\<lambda>n. length (trim n) = 8 \<and> (\<forall>c\<in>set (trim n). c \<in> set ''0123456789''))
               (SheetNames wb)
        else SheetNames wb)"
  by (simp only: parseExcel_def targetSheetNames_def Let_def list_ex_iff
        rosterTabPattern_iff endsWith_suffix conj_commute)

text \<open>
  The theorem at a workbook with two roster tabs among four, at a CSV file, and at a
  workbook without a roster tab.
\<close>

theorem parseExcel_tab_selection_witness:
  "map name (parseExcel ''Roster-March.XLSX''
       \<lparr>SheetNames = [''Summary'', ''20240301'', '' 20240401 '', ''2024-0501''],
        Sheets = (\<lambda>n. [headerRow])\<rparr>)
     = [''20240301'', '' 20240401 '']
   \<and> map name (parseExcel ''staff.csv''
       \<lparr>SheetNames = [''Summary'', ''20240301''], Sheets = (\<lambda>n. [headerRow])\<rparr>)
     = [''Summary'', ''20240301'']
   \<and> map name (parseExcel ''staff.xlsx''
       \<lparr>SheetNames = [''Summary'', ''Sheet1''], Sheets = (\<lambda>n. [headerRow])\<rparr>)
     = [''Summary'', ''Sheet1'']"
proof -
  have "map name (parseExcel ''Roster-March.XLSX''
       \<lparr>SheetNames = [''Summary'', ''20240301'', '' 20240401 '', ''2024-0501''],
        Sheets = (\<lambda>n. [headerRow])\<rparr>)
     = [''20240301'', '' 20240401 '']"
    unfolding parseExcel_tab_selection by code_simp
  moreover have "map name (parseExcel ''staff.csv''
       \<lparr>SheetNames = [''Summary'', ''20240301''], Sheets = (\<lambda>n. [headerRow])\<rparr>)
     = [''Summary'', ''20240301'']"
    unfolding parseExcel_tab_selection by code_simp
  moreover have "map name (parseExcel ''staff.xlsx''
       \<lparr>SheetNames = [''Summary'', ''Sheet1''], Sheets = (\<lambda>n. [headerRow])\<rparr>)
     = [''Summary'', ''Sheet1'']"
    unfolding parseExcel_tab_selection by code_simp
  ultimately show ?thesis by (intro conjI)
qed

section \<open>Properties of cleanRosterData\<close>

lemma padNull_eq: "padNull r = r @ replicate (8 - length r) CNull"
proof (induction r rule: padNull.induct)
  case (1 truncated)
  show ?case
  proof (cases "length truncated < 8")
    case True
    then have "padNull truncated = padNull (truncated @ [CNull])"
      by (subst padNull.simps) simp
    also have "\<dots> = (truncated @ [CNull]) @ replicate (8 - length (truncated @ [CNull])) CNull"
      using 1 True by simp
    also have "\<dots> = truncated @ replicate (Suc (8 - length (truncated @ [CNull]))) CNull"
      by simp
    also have "Suc (8 - length (truncated @ [CNull])) = 8 - length truncated"
      using True by simp
    finally show ?thesis .
  next
    case False
    then show ?thesis by (subst padNull.simps) simp
  qed
qed

lemma padNull_take8: "padNull (take 8 r) = take 8 r @ replicate (8 - length r) CNull"
  by (simp add: padNull_eq min_def)

lemma length_padNull_take8: "length (padNull (take 8 r)) = 8"
  by (simp add: padNull_take8)

lemma at_padNull_take8:
  "at (padNull (take 8 r)) j = (if j < 8 then (if j < length r then r ! j else CNull) else CUndefined)"
  by (auto simp: padNull_take8 at_def nth_append)

lemma finalizeRow_shape:
  "\<exists>v. finalizeRow rt rIdx r = (take 8 r @ replicate (8 - length r) CNull)[2 := v]"
proof (cases "finalizeRow rt rIdx r = padNull (take 8 r)")
  case True
  then have "finalizeRow rt rIdx r = (padNull (take 8 r))[2 := padNull (take 8 r) ! 2]"
    by simp
  then show ?thesis unfolding padNull_take8 by blast
next
  case False
  then obtain d where "finalizeRow rt rIdx r = (padNull (take 8 r))[2 := CDate d]"
    by (auto simp: finalizeRow_def Let_def split: if_splits option.splits)
  then show ?thesis unfolding padNull_take8 by blast
qed

lemma length_finalizeRow: "length (finalizeRow rt rIdx r) = 8"
  using finalizeRow_shape[of rt rIdx r] by auto

lemma finalizeRow_header: "finalizeRow rt 0 r = take 8 r @ replicate (8 - length r) CNull"
  by (simp add: finalizeRow_def padNull_take8)

lemma finalizeRow_Suc: "(\<lambda>i. finalizeRow rt (Suc i)) = (\<lambda>i. finalizeRow rt (Suc 0))"
  by (simp add: finalizeRow_def fun_eq_iff)

lemma keepRow_Suc: "(\<lambda>i. keepRow rt mm (Suc i)) = (\<lambda>i. dateInMonth rt mm)"
  by (simp add: keepRow_def dateInMonth_def fun_eq_iff)

lemma enumerate_Suc_map: "enumerate (Suc n) xs = map (\<lambda>(i, x). (Suc i, x)) (enumerate n xs)"
  by (induction xs arbitrary: n) auto

lemma mapi_Cons: "mapi f (x # xs) = f 0 x # mapi (\<lambda>i. f (Suc i)) xs"
  by (simp add: mapi_def enumerate_Suc_map[of 0] comp_def case_prod_unfold)

lemma filteri_Cons:
  "filteri p (x # xs) = (if p 0 x then [x] else []) @ filteri (\<lambda>i. p (Suc i)) xs"
  by (simp add: filteri_def enumerate_Suc_map[of 0] filter_map comp_def case_prod_unfold)

lemma mapi_const: "mapi (\<lambda>i. f) xs = map f xs"
proof -
  have "map (\<lambda>(i, x). f x) (enumerate n xs) = map f xs" for n
    by (induction xs arbitrary: n) auto
  then show ?thesis by (simp add: mapi_def)
qed

lemma filteri_const: "filteri (\<lambda>i. p) xs = filter p xs"
proof -
  have "map snd (filter (\<lambda>(i, x). p x) (enumerate n xs)) = filter p xs" for n
    by (induction xs arbitrary: n) auto
  then show ?thesis by (simp add: filteri_def)
qed

text \<open>The rows of a cleaned sheet: the header reshaped, then the surviving data rows.\<close>

lemma data_cleanSheet:
  "data (cleanSheet rt mm sh) =
     (case take 72 (data sh) of
        [] \<Rightarrow> []
      | h # t \<Rightarrow> (take 8 h @ replicate (8 - length h) CNull)
                 # map (finalizeRow rt (Suc 0)) (filter (dateInMonth rt mm) t))"
proof (cases "take 72 (data sh)")
  case Nil
  then show ?thesis by (simp add: cleanSheet_def Let_def filteri_def mapi_def)
next
  case (Cons h t)
  have k0: "keepRow rt mm 0 h" by (simp add: keepRow_def)
  have "filteri (keepRow rt mm) (h # t) = h # filter (dateInMonth rt mm) t"
    using k0 by (simp add: filteri_Cons keepRow_Suc filteri_const)
  then have "mapi (finalizeRow rt) (filteri (keepRow rt mm) (h # t))
               = finalizeRow rt 0 h # map (finalizeRow rt (Suc 0)) (filter (dateInMonth rt mm) t)"
    by (simp add: mapi_Cons finalizeRow_Suc mapi_const)
  then show ?thesis
    using Cons by (simp add: cleanSheet_def Let_def finalizeRow_header)
qed

lemma name_cleanSheet: "name (cleanSheet rt mm sh) = name sh"
  by (simp add: cleanSheet_def Let_def)

lemma parseYMD_falsy: "falsy v \<Longrightarrow> parseYMD rt v = None"
  by (cases v) (simp_all add: parseYMD_def)

lemma parseYMD_Some_truthy: "parseYMD rt v = Some d \<Longrightarrow> \<not> falsy v"
  using parseYMD_falsy[of v rt] by auto

lemma finalizeRow_survivor:
  assumes "dateInMonth rt mm r"
  shows "\<exists>d. at (finalizeRow rt (Suc 0) r) 2 = CDate d \<and> monthKey d = mm"
proof -
  from assms obtain d where p: "parseYMD rt (at r 2) = Some d" and k: "monthKey d = mm"
    by (auto simp: dateInMonth_def split: option.splits)
  have t: "\<not> falsy (at r 2)" using p by (rule parseYMD_Some_truthy)
  then have "at r 2 \<noteq> CUndefined" by auto
  then have len: "2 < length r" by (simp add: at_def split: if_splits)
  then have same: "at (padNull (take 8 r)) 2 = at r 2"
    by (simp add: at_padNull_take8) (simp add: at_def)
  have "finalizeRow rt (Suc 0) r = (padNull (take 8 r))[2 := CDate d]"
    using p t by (simp add: finalizeRow_def Let_def same)
  then have "at (finalizeRow rt (Suc 0) r) 2 = CDate d"
    by (simp add: at_def length_padNull_take8)
  with k show ?thesis by blast
qed


lemma cleanSheet_take72: "cleanSheet rt mm (sh\<lparr>data := take 72 (data sh)\<rparr>) = cleanSheet rt mm sh"
  by (simp add: cleanSheet_def Let_def)

lemma length_data_cleanSheet: "length (data (cleanSheet rt mm sh)) \<le> 72"
proof (cases "take 72 (data sh)")
  case Nil
  then show ?thesis by (simp add: data_cleanSheet)
next
  case (Cons h t)
  have "length (h # t) \<le> 72"
    unfolding Cons[symmetric] by simp
  then have "length t \<le> 71" by simp
  have "length (filter (dateInMonth rt mm) t) \<le> length t" by simp
  also note \<open>length t \<le> 71\<close>
  finally show ?thesis using Cons by (simp add: data_cleanSheet)
qed

lemma cleanSheet_eq:
  "cleanSheet rt mm sh =
     sh\<lparr>data := (case take 72 (data sh) of
                   [] \<Rightarrow> []
                 | h # t \<Rightarrow> (take 8 h @ replicate (8 - length h) CNull)
                            # map (finalizeRow rt (Suc 0)) (filter (dateInMonth rt mm) t))\<rparr>"
proof -
  have "cleanSheet rt mm sh = sh\<lparr>data := data (cleanSheet rt mm sh)\<rparr>"
    by (simp add: cleanSheet_def Let_def)
  then show ?thesis by (simp only: data_cleanSheet)
qed

lemma data_row_survives:
  assumes "0 < i" and "i < 72" and "i < length (data sh)" and "dateInMonth rt mm (data sh ! i)"
  shows "1 < length (data (cleanSheet rt mm sh))
       \<and> finalizeRow rt (Suc 0) (data sh ! i) \<in> set (data (cleanSheet rt mm sh))"
proof -
  obtain h t where ht: "take 72 (data sh) = h # t"
    using assms(3) by (cases "take 72 (data sh)") auto
  from assms(1) obtain k where i: "i = Suc k" by (cases i) auto
  have "i < length (take 72 (data sh))" using assms(2,3) by simp
  then have k: "k < length t" using ht i by simp
  have "take 72 (data sh) ! i = data sh ! i" using assms(2) by simp
  then have "t ! k = data sh ! i" using ht i by simp
  then have "data sh ! i \<in> set t" using k nth_mem by metis
  then have mem: "data sh ! i \<in> set (filter (dateInMonth rt mm) t)"
    using assms(4) by simp
  then have "filter (dateInMonth rt mm) t \<noteq> []"
    by (metis empty_iff list.set(1))
  then show ?thesis using mem ht by (simp add: data_cleanSheet)
qed

text \<open>
  Claim C4. \<^verbatim>\<open>cleanRosterData\<close> cuts every sheet to its first 72 rows (the header and up
  to 71 data rows) and only then filters by month. Exactly: a cleaned sheet consists of
  the reshaped row 0 followed by the finalized rows, in order, of those rows at index 1
  to 71 whose date lies in the target month, and the sheets with a data row left make up
  the result. So the result is the same when every sheet is cut to its first 72 rows
  beforehand (a row at index 72 or beyond never appears, whatever its date), no sheet of
  the result has more than 72 rows, and every row at an index from 1 to 71 whose date
  lies in the target month does appear, in a sheet of the result.
\<close>

theorem cleanRosterData_truncates_first:
  "cleanRosterData rt sheets mm
     = filter (\<lambda>sh. 1 < length (data sh))
         (map (\<lambda>sh. sh\<lparr>data :=
                 (case take 72 (data sh) of
                    [] \<Rightarrow> []
                  | h # t \<Rightarrow> (take 8 h @ replicate (8 - length h) CNull)
                             # map (finalizeRow rt (Suc 0)) (filter (dateInMonth rt mm) t))\<rparr>)
            sheets)
   \<and> cleanRosterData rt sheets mm
       = cleanRosterData rt (map (\<lambda>sh. sh\<lparr>data := take 72 (data sh)\<rparr>) sheets) mm
   \<and> (\<forall>sh'\<in>set (cleanRosterData rt sheets mm). length (data sh') \<le> 72)
   \<and> (\<forall>sh\<in>set sheets. \<forall>i.
         0 < i \<and> i < 72 \<and> i < length (data sh) \<and> dateInMonth rt mm (data sh ! i) \<longrightarrow>
           cleanSheet rt mm sh \<in> set (cleanRosterData rt sheets mm)
         \<and> finalizeRow rt (Suc 0) (data sh ! i) \<in> set (data (cleanSheet rt mm sh)))"
proof (intro conjI)
  have "cleanSheet rt mm = (\<lambda>sh. sh\<lparr>data :=
                 (case take 72 (data sh) of
                    [] \<Rightarrow> []
                  | h # t \<Rightarrow> (take 8 h @ replicate (8 - length h) CNull)
                             # map (finalizeRow rt (Suc 0)) (filter (dateInMonth rt mm) t))\<rparr>)"
    by (rule ext) (rule cleanSheet_eq)
  then show "cleanRosterData rt sheets mm
     = filter (\<lambda>sh. 1 < length (data sh))
         (map (\<lambda>sh. sh\<lparr>data :=
                 (case take 72 (data sh) of
                    [] \<Rightarrow> []
                  | h # t \<Rightarrow> (take 8 h @ replicate (8 - length h) CNull)
                             # map (finalizeRow rt (Suc 0)) (filter (dateInMonth rt mm) t))\<rparr>)
            sheets)"
    by (simp only: cleanRosterData_def)
  show "cleanRosterData rt sheets mm
     = cleanRosterData rt (map (\<lambda>sh. sh\<lparr>data := take 72 (data sh)\<rparr>) sheets) mm"
    by (simp add: cleanRosterData_def comp_def cleanSheet_take72)
  show "\<forall>sh'\<in>set (cleanRosterData rt sheets mm). length (data sh') \<le> 72"
    by (auto simp: cleanRosterData_def length_data_cleanSheet)
  show "\<forall>sh\<in>set sheets. \<forall>i.
         0 < i \<and> i < 72 \<and> i < length (data sh) \<and> dateInMonth rt mm (data sh ! i) \<longrightarrow>
           cleanSheet rt mm sh \<in> set (cleanRosterData rt sheets mm)
         \<and> finalizeRow rt (Suc 0) (data sh ! i) \<in> set (data (cleanSheet rt mm sh))"
  proof (intro ballI allI impI)
    fix sh i
    assume sh: "sh \<in> set sheets"
      and h: "0 < i \<and> i < 72 \<and> i < length (data sh) \<and> dateInMonth rt mm (data sh ! i)"
    then have s: "1 < length (data (cleanSheet rt mm sh))
       \<and> finalizeRow rt (Suc 0) (data sh ! i) \<in> set (data (cleanSheet rt mm sh))"
      using data_row_survives by blast
    then have "cleanSheet rt mm sh \<in> set (cleanRosterData rt sheets mm)"
      using sh by (simp add: cleanRosterData_def)
    with s show "cleanSheet rt mm sh \<in> set (cleanRosterData rt sheets mm)
         \<and> finalizeRow rt (Suc 0) (data sh ! i) \<in> set (data (cleanSheet rt mm sh))"
      by simp
  qed
qed

lemma rows_cleanSheet:
  assumes "r' \<in> set (data (cleanSheet rt mm sh))"
  shows "length r' = 8 \<and>
         (\<exists>r\<in>set (data sh). \<exists>v. r' = (take 8 r @ replicate (8 - length r) CNull)[2 := v])"
proof (cases "take 72 (data sh)")
  case Nil
  with assms show ?thesis by (simp add: data_cleanSheet)
next
  case (Cons h t)
  have sub: "set (h # t) \<subseteq> set (data sh)"
    unfolding Cons[symmetric] by (rule set_take_subset)
  from assms Cons consider
      "r' = take 8 h @ replicate (8 - length h) CNull"
    | r where "r \<in> set t" and "r' = finalizeRow rt (Suc 0) r"
    by (auto simp: data_cleanSheet)
  then show ?thesis
  proof cases
    case 1
    then have "r' = (take 8 h @ replicate (8 - length h) CNull)[2 := r' ! 2]" by simp
    moreover have "length r' = 8" using 1 by simp
    ultimately show ?thesis using sub by auto
  next
    case 2
    obtain v where "r' = (take 8 r @ replicate (8 - length r) CNull)[2 := v]"
      using finalizeRow_shape[of rt "Suc 0" r] 2 by auto
    moreover have "length r' = 8" using 2 by (simp add: length_finalizeRow)
    ultimately show ?thesis using sub 2 by auto
  qed
qed

text \<open>
  Claim C8. Every row of every sheet that \<^verbatim>\<open>cleanRosterData\<close> returns has exactly 8 cells:
  it is a row of the sheet of that name, cut to its first 8 cells or filled up with null
  cells to 8, in which at most the cell at position 2 has been replaced.
\<close>

theorem cleanRosterData_rows_have_8_cells:
  "\<forall>sh'\<in>set (cleanRosterData rt sheets mm).
     \<exists>sh\<in>set sheets. name sh' = name sh \<and>
       (\<forall>r'\<in>set (data sh'). length r' = 8 \<and>
          (\<exists>r\<in>set (data sh). \<exists>v. r' = (take 8 r @ replicate (8 - length r) CNull)[2 := v]))"
proof
  fix sh' assume "sh' \<in> set (cleanRosterData rt sheets mm)"
  then obtain sh where sh: "sh \<in> set sheets" and eq: "sh' = cleanSheet rt mm sh"
    by (auto simp: cleanRosterData_def)
  have "name sh' = name sh" by (simp add: eq name_cleanSheet)
  moreover have "\<forall>r'\<in>set (data sh'). length r' = 8 \<and>
          (\<exists>r\<in>set (data sh). \<exists>v. r' = (take 8 r @ replicate (8 - length r) CNull)[2 := v])"
    unfolding eq using rows_cleanSheet by blast
  ultimately show "\<exists>sh\<in>set sheets. name sh' = name sh \<and>
       (\<forall>r'\<in>set (data sh'). length r' = 8 \<and>
          (\<exists>r\<in>set (data sh). \<exists>v. r' = (take 8 r @ replicate (8 - length r) CNull)[2 := v]))"
    using sh by blast
qed

lemma cleanSheet_kept_iff:
  "1 < length (data (cleanSheet rt mm sh)) \<longleftrightarrow>
     (\<exists>r\<in>set (tl (take 72 (data sh))). dateInMonth rt mm r)"
proof (cases "take 72 (data sh)")
  case Nil
  then show ?thesis by (simp add: data_cleanSheet)
next
  case (Cons h t)
  have "filter (dateInMonth rt mm) t \<noteq> [] \<longleftrightarrow> (\<exists>r\<in>set t. dateInMonth rt mm r)"
    by (simp add: filter_empty_conv)
  then show ?thesis using Cons by (simp add: data_cleanSheet)
qed

lemma data_rows_cleanSheet:
  assumes "0 < i" and "i < length (data (cleanSheet rt mm sh))"
  shows "\<exists>d. at (data (cleanSheet rt mm sh) ! i) 2 = CDate d \<and> monthKey d = mm"
proof (cases "take 72 (data sh)")
  case Nil
  with assms show ?thesis by (simp add: data_cleanSheet)
next
  case (Cons h t)
  from assms(1) obtain k where i: "i = Suc k" by (cases i) auto
  with assms(2) Cons have k: "k < length (filter (dateInMonth rt mm) t)"
    by (simp add: data_cleanSheet)
  then have "filter (dateInMonth rt mm) t ! k \<in> set (filter (dateInMonth rt mm) t)"
    by (rule nth_mem)
  then have "dateInMonth rt mm (filter (dateInMonth rt mm) t ! k)" by simp
  then have "\<exists>d. at (finalizeRow rt (Suc 0) (filter (dateInMonth rt mm) t ! k)) 2 = CDate d
                 \<and> monthKey d = mm"
    by (rule finalizeRow_survivor)
  then show ?thesis using Cons i k by (simp add: data_cleanSheet)
qed

lemma header_cleanSheet:
  assumes "data sh \<noteq> []"
  shows "data (cleanSheet rt mm sh) ! 0
           = take 8 (hd (data sh)) @ replicate (8 - length (hd (data sh))) CNull"
proof -
  from assms obtain h t where "data sh = h # t" by (cases "data sh") auto
  then show ?thesis by (simp add: data_cleanSheet)
qed

text \<open>
  Claim C9. The result of \<^verbatim>\<open>cleanRosterData\<close> consists of the cleaned sheets of exactly
  those sheets that have, among their first 71 data rows, one whose date lies in the
  target month: a sheet left with its header only is absent. In every sheet of the
  result, the cell at position 2 of every data row is a \<^verbatim>\<open>Date\<close> whose month key is the
  target. The header's cell at position 2 is the input's (null when the header is
  shorter), never a parsed date.
\<close>

theorem cleanRosterData_dates_header_and_dropped_sheets:
  "cleanRosterData rt sheets mm
     = map (cleanSheet rt mm)
         (filter (\<lambda>sh. \<exists>r\<in>set (tl (take 72 (data sh))). dateInMonth rt mm r) sheets)
   \<and> (\<forall>sh'\<in>set (cleanRosterData rt sheets mm).
         1 < length (data sh') \<and>
         (\<forall>i. 0 < i \<and> i < length (data sh') \<longrightarrow>
              (\<exists>d. at (data sh' ! i) 2 = CDate d \<and> monthKey d = mm)))
   \<and> (\<forall>sh\<in>set sheets. data sh \<noteq> [] \<longrightarrow>
         at (data (cleanSheet rt mm sh) ! 0) 2
           = (if 2 < length (hd (data sh)) then hd (data sh) ! 2 else CNull))"
proof (intro conjI)
  show "cleanRosterData rt sheets mm
     = map (cleanSheet rt mm)
         (filter (\<lambda>sh. \<exists>r\<in>set (tl (take 72 (data sh))). dateInMonth rt mm r) sheets)"
    by (simp only: cleanRosterData_def filter_map comp_def cleanSheet_kept_iff)
  show "\<forall>sh'\<in>set (cleanRosterData rt sheets mm).
         1 < length (data sh') \<and>
         (\<forall>i. 0 < i \<and> i < length (data sh') \<longrightarrow>
              (\<exists>d. at (data sh' ! i) 2 = CDate d \<and> monthKey d = mm))"
    by (auto simp: cleanRosterData_def data_rows_cleanSheet)
  show "\<forall>sh\<in>set sheets. data sh \<noteq> [] \<longrightarrow>
         at (data (cleanSheet rt mm sh) ! 0) 2
           = (if 2 < length (hd (data sh)) then hd (data sh) ! 2 else CNull)"
    by (auto simp: header_cleanSheet at_def nth_append)
qed


text \<open>
  The theorem at a sheet of 73 rows with 70 rows of April, then a row of March at index
  71 and another at index 72: with the target month March, the result is the sheet with
  its header and the row of index 71, its date parsed; the row of index 72 is gone.
\<close>

theorem cleanRosterData_truncates_first_witness:
  "length (data longSheet) = 73
   \<and> dateInMonth plainRuntime ''2024-03'' (data longSheet ! 71)
   \<and> dateInMonth plainRuntime ''2024-03'' (data longSheet ! 72)
   \<and> cleanRosterData plainRuntime [longSheet] ''2024-03''
       = [\<lparr>name = ''20240301'',
           data = [headerRow,
                   dataRow (CDate (TimeValue 1709251200000)) (CStr ''Ann Lee'')]\<rparr>]"
proof -
  let ?apr = "dataRow (CStr ''2024/04/01'') (CStr ''Ann Lee'')"
  let ?m1 = "dataRow (CStr ''2024/03/01'') (CStr ''Ann Lee'')"
  let ?m2 = "dataRow (CStr ''2024/03/02'') (CStr ''Bob Ng'')"
  have len: "length (data longSheet) = 73" by (simp add: longSheet_def)
  have r71: "data longSheet ! 71 = ?m1"
    by (simp add: longSheet_def nth_append)
  have r72: "data longSheet ! 72 = ?m2"
    by (simp add: longSheet_def nth_append)
  have apr: "\<not> dateInMonth plainRuntime ''2024-03'' ?apr" by code_simp
  have m1: "dateInMonth plainRuntime ''2024-03'' ?m1" by code_simp
  have m2: "dateInMonth plainRuntime ''2024-03'' ?m2" by code_simp
  have fin: "finalizeRow plainRuntime (Suc 0) ?m1
               = dataRow (CDate (TimeValue 1709251200000)) (CStr ''Ann Lee'')"
    by code_simp
  have hdr: "take 8 headerRow @ replicate (8 - length headerRow) CNull = headerRow"
    by (simp add: headerRow_def)
  have tk: "take 72 (data longSheet) = headerRow # replicate 70 ?apr @ [?m1]"
    by (simp add: longSheet_def)
  have "cleanRosterData plainRuntime [longSheet] ''2024-03''
     = filter (\<lambda>sh. 1 < length (data sh))
         (map (\<lambda>sh. sh\<lparr>data :=
                 (case take 72 (data sh) of
                    [] \<Rightarrow> []
                  | h # t \<Rightarrow> (take 8 h @ replicate (8 - length h) CNull)
                             # map (finalizeRow plainRuntime (Suc 0))
                                 (filter (dateInMonth plainRuntime ''2024-03'') t))\<rparr>)
            [longSheet])"
    using cleanRosterData_truncates_first by (rule conjunct1)
  also have "\<dots> = [\<lparr>name = ''20240301'',
           data = [headerRow,
                   dataRow (CDate (TimeValue 1709251200000)) (CStr ''Ann Lee'')]\<rparr>]"
    by (simp add: tk apr m1 fin hdr) (simp add: longSheet_def)
  finally show ?thesis using len m1 m2 r71 r72 by simp
qed

text \<open>
  The theorem at two sheets; the first has a data row of 3 cells and one of 10 cells.
\<close>

theorem cleanRosterData_rows_have_8_cells_witness:
  "length (data (hd (cleanRosterData plainRuntime [marchSheet, aprilSheet] ''2024-03'')) ! 1) = 8
   \<and> length (data (hd (cleanRosterData plainRuntime [marchSheet, aprilSheet] ''2024-03'')) ! 2) = 8
   \<and> length (data marchSheet ! 1) = 3 \<and> length (data marchSheet ! 3) = 10"
proof -
  let ?out = "cleanRosterData plainRuntime [marchSheet, aprilSheet] ''2024-03''"
  have m: "hd ?out \<in> set ?out" by code_simp
  have "\<exists>sh\<in>set [marchSheet, aprilSheet]. name (hd ?out) = name sh \<and>
       (\<forall>r'\<in>set (data (hd ?out)). length r' = 8 \<and>
          (\<exists>r\<in>set (data sh). \<exists>v. r' = (take 8 r @ replicate (8 - length r) CNull)[2 := v]))"
    using cleanRosterData_rows_have_8_cells m by (rule bspec)
  then have all8: "\<forall>r'\<in>set (data (hd ?out)). length r' = 8" by blast
  have r1: "data (hd ?out) ! 1 \<in> set (data (hd ?out))" by code_simp
  have r2: "data (hd ?out) ! 2 \<in> set (data (hd ?out))" by code_simp
  have "length (data marchSheet ! 1) = 3" "length (data marchSheet ! 3) = 10" by code_simp+
  with all8 r1 r2 show ?thesis by blast
qed

text \<open>
  The theorem at the same two sheets: the April sheet is dropped, the first data row of
  the March sheet carries a date of March, and the headers keep their cell 2.
\<close>

theorem cleanRosterData_dates_header_and_dropped_sheets_witness:
  "map name (cleanRosterData plainRuntime [marchSheet, aprilSheet] ''2024-03'') = [''20240301'']
   \<and> (\<exists>d. at (data (hd (cleanRosterData plainRuntime [marchSheet, aprilSheet] ''2024-03'')) ! 1) 2
            = CDate d \<and> monthKey d = ''2024-03'')
   \<and> at (data (cleanSheet plainRuntime ''2024-03'' marchSheet) ! 0) 2 = CStr ''Date''
   \<and> at (data (cleanSheet plainRuntime ''2024-03'' aprilSheet) ! 0) 2 = CNull"
proof -
  let ?out = "cleanRosterData plainRuntime [marchSheet, aprilSheet] ''2024-03''"
  note t = cleanRosterData_dates_header_and_dropped_sheets
             [of plainRuntime "[marchSheet, aprilSheet]" "''2024-03''"]
  have "?out = map (cleanSheet plainRuntime ''2024-03'')
         (filter (\<lambda>sh. \<exists>r\<in>set (tl (take 72 (data sh))). dateInMonth plainRuntime ''2024-03'' r)
            [marchSheet, aprilSheet])"
    using t by (rule conjunct1)
  then have "map name ?out = map name (filter (\<lambda>sh. \<exists>r\<in>set (tl (take 72 (data sh))). dateInMonth plainRuntime ''2024-03'' r)
            [marchSheet, aprilSheet])"
    by (simp add: comp_def name_cleanSheet)
  also have "\<dots> = [''20240301'']"
  proof -
    have "dateInMonth plainRuntime ''2024-03'' [CStr ''1'', CStr ''AM'', CStr ''2024/03/01'']"
      and "\<not> dateInMonth plainRuntime ''2024-03'' (dataRow (CStr ''2024/04/01'') (CStr ''Ann Lee''))"
      by code_simp+
    then show ?thesis
      by (simp add: marchSheet_def aprilSheet_def)
  qed
  finally have a: "map name ?out = [''20240301'']" .
  have m: "hd ?out \<in> set ?out" by code_simp
  have "1 < length (data (hd ?out)) \<and>
         (\<forall>i. 0 < i \<and> i < length (data (hd ?out)) \<longrightarrow>
              (\<exists>d. at (data (hd ?out) ! i) 2 = CDate d \<and> monthKey d = ''2024-03''))"
    using t[THEN conjunct2, THEN conjunct1] m by (rule bspec)
  then have b: "\<exists>d. at (data (hd ?out) ! 1) 2 = CDate d \<and> monthKey d = ''2024-03''"
    by simp
  have h1: "marchSheet \<in> set [marchSheet, aprilSheet]" "data marchSheet \<noteq> []"
    and h2: "aprilSheet \<in> set [marchSheet, aprilSheet]" "data aprilSheet \<noteq> []"
    by code_simp+
  have c: "at (data (cleanSheet plainRuntime ''2024-03'' marchSheet) ! 0) 2
           = (if 2 < length (hd (data marchSheet)) then hd (data marchSheet) ! 2 else CNull)"
    using t[THEN conjunct2, THEN conjunct2] h1 by blast
  have d: "at (data (cleanSheet plainRuntime ''2024-03'' aprilSheet) ! 0) 2
           = (if 2 < length (hd (data aprilSheet)) then hd (data aprilSheet) ! 2 else CNull)"
    using t[THEN conjunct2, THEN conjunct2] h2 by blast
  have c': "(if 2 < length (hd (data marchSheet)) then hd (data marchSheet) ! 2 else CNull) = CStr ''Date''"
    by code_simp
  have d': "(if 2 < length (hd (data aprilSheet)) then hd (data aprilSheet) ! 2 else CNull) = CNull"
    by code_simp
  from a b c d c' d' show ?thesis by simp
qed

section \<open>Properties of findMajorityMonth\<close>

lemma tally_Nil: "tally mc [] = mc"
  by (simp add: tally_def)

lemma tally_snoc: "tally mc (ks @ [k]) = bump k (tally mc ks)"
  by (simp add: tally_def)

lemma tally_append: "tally mc (ks @ ks') = tally (tally mc ks) ks'"
  by (simp add: tally_def)

lemma countRow_Suc:
  "countRow rt mc (Suc i, r)
     = (case parseYMD rt (at r 2) of None \<Rightarrow> mc | Some d \<Rightarrow> bump (monthKey d) mc)"
  by (simp add: countRow_def)

lemma countRow_data_rows:
  "foldl (countRow rt) mc (enumerate (Suc n) rows)
     = tally mc (List.map_filter (\<lambda>r. map_option monthKey (parseYMD rt (at r 2))) rows)"
proof (induction rows arbitrary: mc n)
  case Nil
  then show ?case by (simp add: tally_def map_filter_simps)
next
  case (Cons r rows)
  show ?case
  proof (cases "parseYMD rt (at r 2)")
    case None
    then show ?thesis
      using Cons[of mc "Suc n"] by (simp add: countRow_Suc map_filter_simps)
  next
    case (Some d)
    then show ?thesis
      using Cons[of "bump (monthKey d) mc" "Suc n"]
      by (simp add: countRow_Suc map_filter_simps tally_def)
  qed
qed

lemma countSheet_tally:
  "countSheet rt mc sh
     = tally mc (List.map_filter (\<lambda>r. map_option monthKey (parseYMD rt (at r 2))) (tl (data sh)))"
proof (cases "data sh")
  case Nil
  then show ?thesis by (simp add: countSheet_def tally_def map_filter_simps)
next
  case (Cons h t)
  have "countSheet rt mc sh = foldl (countRow rt) mc (enumerate (Suc 0) t)"
    using Cons by (simp add: countSheet_def countRow_def)
  then show ?thesis using Cons by (simp add: countRow_data_rows)
qed

lemma countSheets_tally:
  "foldl (countSheet rt) mc sheets = tally mc (dataMonthKeys rt sheets)"
proof (induction sheets arbitrary: mc)
  case Nil
  then show ?case by (simp add: dataMonthKeys_def tally_def)
next
  case (Cons sh sheets)
  have k: "dataMonthKeys rt (sh # sheets)
          = List.map_filter (\<lambda>r. map_option monthKey (parseYMD rt (at r 2))) (tl (data sh))
            @ dataMonthKeys rt sheets"
    by (simp add: dataMonthKeys_def)
  have "foldl (countSheet rt) mc (sh # sheets) = foldl (countSheet rt) (countSheet rt mc sh) sheets"
    by simp
  also have "\<dots> = tally (countSheet rt mc sh) (dataMonthKeys rt sheets)"
    by (rule Cons)
  also have "\<dots> = tally mc (dataMonthKeys rt (sh # sheets))"
    by (simp only: k tally_append countSheet_tally)
  finally show ?case .
qed

lemma keys_bump:
  "map fst (bump k mc) = (if k \<in> set (map fst mc) then map fst mc else map fst mc @ [k])"
proof (induction mc)
  case Nil
  then show ?case by simp
next
  case (Cons e mc)
  obtain k0 n0 where e: "e = (k0, n0)" by (cases e)
  show ?case
  proof (cases "k = k0")
    case True
    then show ?thesis using e by simp
  next
    case False
    then show ?thesis using e Cons by simp
  qed
qed

lemma entries_bump:
  assumes "distinct (map fst mc)" and "(k', n') \<in> set (bump k mc)"
  shows "(k' \<noteq> k \<and> (k', n') \<in> set mc)
       \<or> (k' = k \<and> k \<notin> set (map fst mc) \<and> n' = 1)
       \<or> (k' = k \<and> (\<exists>n. (k, n) \<in> set mc \<and> n' = n + 1))"
  using assms
proof (induction mc)
  case Nil
  then show ?case by auto
next
  case (Cons e mc)
  obtain k0 n0 where e: "e = (k0, n0)" by (cases e)
  show ?case
  proof (cases "k = k0")
    case True
    with Cons.prems e show ?thesis by (auto simp: rev_image_eqI)
  next
    case False
    with Cons e show ?thesis by (auto simp: rev_image_eqI)
  qed
qed

lemma tally_invariant:
  "set (map fst (tally [] ks)) = set ks
   \<and> distinct (map fst (tally [] ks))
   \<and> (\<forall>(k, n) \<in> set (tally [] ks). n = count_list ks k)"
proof (induction ks rule: rev_induct)
  case Nil
  then show ?case by (simp add: tally_Nil)
next
  case (snoc x ks)
  let ?mc = "tally [] ks"
  from snoc have keys: "set (map fst ?mc) = set ks" and dist: "distinct (map fst ?mc)"
    and cnt: "\<And>k n. (k, n) \<in> set ?mc \<Longrightarrow> n = count_list ks k"
    by auto
  have k': "set (map fst (bump x ?mc)) = set (ks @ [x])"
    using keys by (auto simp: keys_bump)
  have d': "distinct (map fst (bump x ?mc))"
    using dist by (simp add: keys_bump)
  have c': "n = count_list (ks @ [x]) k" if "(k, n) \<in> set (bump x ?mc)" for k n
  proof -
    from entries_bump[OF dist that] consider
        "k \<noteq> x" "(k, n) \<in> set ?mc"
      | "k = x" "x \<notin> set (map fst ?mc)" "n = 1"
      | m where "k = x" "(x, m) \<in> set ?mc" "n = m + 1"
      by blast
    then show ?thesis
    proof cases
      case 1
      then show ?thesis using cnt by simp
    next
      case 2
      then have "x \<notin> set ks" using keys by simp
      then show ?thesis using 2 by simp
    next
      case 3
      then show ?thesis using cnt by simp
    qed
  qed
  show ?case
    unfolding tally_snoc using k' d' c' by blast
qed

lemma tally_order:
  "map fst (tally [] ks) = A @ k # B \<Longrightarrow>
   \<exists>pre post. ks = pre @ k # post \<and> k \<notin> set pre \<and> set pre \<subseteq> set A"
proof (induction ks arbitrary: B rule: rev_induct)
  case Nil
  then show ?case by (simp add: tally_Nil)
next
  case (snoc x ks)
  have keys: "set (map fst (tally [] ks)) = set ks"
    using tally_invariant by blast
  show ?case
  proof (cases "x \<in> set ks")
    case True
    then have "map fst (tally [] ks) = A @ k # B"
      using snoc.prems keys by (simp add: tally_snoc keys_bump)
    then obtain pre post where "ks = pre @ k # post" "k \<notin> set pre" "set pre \<subseteq> set A"
      using snoc.IH by blast
    then have "ks @ [x] = pre @ k # (post @ [x])" by simp
    then show ?thesis using \<open>k \<notin> set pre\<close> \<open>set pre \<subseteq> set A\<close> by blast
  next
    case False
    then have eq: "map fst (tally [] ks) @ [x] = A @ k # B"
      using snoc.prems keys by (simp add: tally_snoc keys_bump)
    show ?thesis
    proof (cases B rule: rev_cases)
      case Nil
      with eq have "map fst (tally [] ks) = A" and "x = k" by auto
      then have "set ks \<subseteq> set A" using keys by auto
      moreover have "k \<notin> set ks" using False \<open>x = k\<close> by simp
      ultimately show ?thesis using \<open>x = k\<close> by blast
    next
      case (snoc B' y)
      with eq have "map fst (tally [] ks) = A @ k # B'" by simp
      then obtain pre post where "ks = pre @ k # post" "k \<notin> set pre" "set pre \<subseteq> set A"
        using snoc.IH by blast
      then have "ks @ [x] = pre @ k # (post @ [x])" by simp
      then show ?thesis using \<open>k \<notin> set pre\<close> \<open>set pre \<subseteq> set A\<close> by blast
    qed
  qed
qed

lemma pickMax_fold:
  "\<exists>m maj. foldl pickMax (0, None) xs = (m, maj)
     \<and> (\<forall>e\<in>set xs. snd e \<le> m)
     \<and> ((m = 0 \<and> maj = None)
        \<or> (\<exists>A k B. xs = A @ (k, m) # B \<and> maj = Some k \<and> (\<forall>e\<in>set A. snd e < m)))"
proof (induction xs rule: rev_induct)
  case Nil
  then show ?case by simp
next
  case (snoc x xs)
  then obtain m maj where f: "foldl pickMax (0, None) xs = (m, maj)"
    and le: "\<forall>e\<in>set xs. snd e \<le> m"
    and alt: "(m = 0 \<and> maj = None)
        \<or> (\<exists>A k B. xs = A @ (k, m) # B \<and> maj = Some k \<and> (\<forall>e\<in>set A. snd e < m))"
    by blast
  obtain k n where x: "x = (k, n)" by (cases x)
  show ?case
  proof (cases "n > m")
    case True
    then have r: "foldl pickMax (0, None) (xs @ [x]) = (n, Some k)"
      using f x by (simp add: pickMax_def)
    have "\<forall>e\<in>set (xs @ [x]). snd e \<le> n"
      using le True x by auto
    moreover have "xs @ [x] = xs @ (k, n) # []" using x by simp
    moreover have "\<forall>e\<in>set xs. snd e < n" using le True by auto
    ultimately show ?thesis using r by blast
  next
    case False
    then have r: "foldl pickMax (0, None) (xs @ [x]) = (m, maj)"
      using f x by (simp add: pickMax_def)
    have l: "\<forall>e\<in>set (xs @ [x]). snd e \<le> m"
      using le False x by auto
    from alt show ?thesis
    proof
      assume "m = 0 \<and> maj = None"
      then show ?thesis using r l by blast
    next
      assume "\<exists>A k B. xs = A @ (k, m) # B \<and> maj = Some k \<and> (\<forall>e\<in>set A. snd e < m)"
      then obtain A k' B where "xs = A @ (k', m) # B" "maj = Some k'" "\<forall>e\<in>set A. snd e < m"
        by blast
      then have "xs @ [x] = A @ (k', m) # (B @ [x])" by simp
      then show ?thesis using r l \<open>maj = Some k'\<close> \<open>\<forall>e\<in>set A. snd e < m\<close> by blast
    qed
  qed
qed


text \<open>
  Claim C3. Let the data keys be the month keys of the parseable dates at column index 2
  over all rows except each sheet's row 0, in the order of the scan. \<^verbatim>\<open>findMajorityMonth\<close>
  returns null exactly when there is no data key. Otherwise it returns a data key whose
  count is maximal, and among the keys of maximal count the earliest-encountered one:
  every key met before its first occurrence has a strictly smaller count.
\<close>

theorem findMajorityMonth_majority:
  "(findMajorityMonth rt sheets = None \<longleftrightarrow> dataMonthKeys rt sheets = [])
   \<and> (\<forall>k. findMajorityMonth rt sheets = Some k \<longrightarrow>
          k \<in> set (dataMonthKeys rt sheets)
        \<and> (\<forall>k'. count_list (dataMonthKeys rt sheets) k' \<le> count_list (dataMonthKeys rt sheets) k)
        \<and> (\<exists>pre post. dataMonthKeys rt sheets = pre @ k # post \<and> k \<notin> set pre
              \<and> (\<forall>k'\<in>set pre. count_list (dataMonthKeys rt sheets) k'
                                  < count_list (dataMonthKeys rt sheets) k)))"
proof -
  let ?ks = "dataMonthKeys rt sheets"
  let ?mc = "tally [] ?ks"
  have keys: "set (map fst ?mc) = set ?ks"
    and cnt: "\<And>k n. (k, n) \<in> set ?mc \<Longrightarrow> n = count_list ?ks k"
    using tally_invariant[of ?ks] by auto
  have res: "findMajorityMonth rt sheets = snd (foldl pickMax (0, None) ?mc)"
    by (simp add: findMajorityMonth_def countSheets_tally)
  obtain m maj where f: "foldl pickMax (0, None) ?mc = (m, maj)"
    and le: "\<forall>e\<in>set ?mc. snd e \<le> m"
    and alt: "(m = 0 \<and> maj = None)
        \<or> (\<exists>A k B. ?mc = A @ (k, m) # B \<and> maj = Some k \<and> (\<forall>e\<in>set A. snd e < m))"
    using pickMax_fold[of ?mc] by blast
  have r: "findMajorityMonth rt sheets = maj"
    using res f by simp
  show ?thesis
  proof (cases "?ks = []")
    case True
    then have "?mc = []" by (simp add: tally_Nil)
    then have "maj = None" using f by simp
    then show ?thesis using True r by simp
  next
    case False
    then obtain k0 where "k0 \<in> set ?ks" by (cases ?ks) auto
    then obtain n0 where e0: "(k0, n0) \<in> set ?mc" using keys by force
    then have "n0 = count_list ?ks k0" by (rule cnt)
    moreover have "count_list ?ks k0 \<noteq> 0"
      using \<open>k0 \<in> set ?ks\<close> by (simp add: count_list_0_iff)
    ultimately have "0 < n0" by simp
    moreover have "n0 \<le> m" using le e0 by force
    ultimately have "m \<noteq> 0" by simp
    with alt obtain A k B where mc: "?mc = A @ (k, m) # B" and maj: "maj = Some k"
      and before: "\<forall>e\<in>set A. snd e < m"
      by blast
    have km: "(k, m) \<in> set ?mc" by (simp add: mc)
    then have m: "m = count_list ?ks k" by (rule cnt)
    have "k \<in> set (map fst ?mc)" using km by force
    then have mem: "k \<in> set ?ks" using keys by simp
    have maxi: "count_list ?ks k' \<le> count_list ?ks k" for k'
    proof (cases "k' \<in> set ?ks")
      case True
      then obtain n' where e: "(k', n') \<in> set ?mc" using keys by force
      then have "n' = count_list ?ks k'" by (rule cnt)
      moreover have "n' \<le> m" using le e by force
      ultimately show ?thesis using m by simp
    next
      case False
      then show ?thesis by simp
    qed
    have "map fst ?mc = map fst A @ k # map fst B" by (simp add: mc)
    then obtain pre post where dec: "?ks = pre @ k # post" and fresh: "k \<notin> set pre"
      and sub: "set pre \<subseteq> set (map fst A)"
      using tally_order by blast
    have earlier: "count_list ?ks k' < count_list ?ks k" if "k' \<in> set pre" for k'
    proof -
      from that sub obtain n' where e: "(k', n') \<in> set A" by force
      then have "(k', n') \<in> set ?mc" by (simp add: mc)
      then have "n' = count_list ?ks k'" by (rule cnt)
      moreover have "n' < m" using before e by force
      ultimately show ?thesis using m by simp
    qed
    have "findMajorityMonth rt sheets = Some k" using r maj by simp
    moreover have "\<exists>pre post. ?ks = pre @ k # post \<and> k \<notin> set pre
              \<and> (\<forall>k'\<in>set pre. count_list ?ks k' < count_list ?ks k)"
      using dec fresh earlier by blast
    ultimately show ?thesis using False mem maxi by simp
  qed
qed

text \<open>
  The theorem at a sheet whose data keys are March, April, April, March (the header's
  date of May and the row without a date do not count): the two months tie and March,
  met first, is returned. A sheet with a header only gives null.
\<close>

theorem findMajorityMonth_majority_witness:
  "dataMonthKeys plainRuntime [tieSheet] = [''2024-03'', ''2024-04'', ''2024-04'', ''2024-03'']
   \<and> findMajorityMonth plainRuntime [tieSheet] = Some ''2024-03''
   \<and> count_list (dataMonthKeys plainRuntime [tieSheet]) ''2024-04''
       \<le> count_list (dataMonthKeys plainRuntime [tieSheet]) ''2024-03''
   \<and> findMajorityMonth plainRuntime [aprilSheet\<lparr>data := [headerRow]\<rparr>] = None"
proof -
  have k: "dataMonthKeys plainRuntime [tieSheet]
             = [''2024-03'', ''2024-04'', ''2024-04'', ''2024-03'']"
    by code_simp
  have e: "findMajorityMonth plainRuntime [tieSheet] = Some ''2024-03''"
    by code_simp
  have c: "count_list (dataMonthKeys plainRuntime [tieSheet]) ''2024-04''
       \<le> count_list (dataMonthKeys plainRuntime [tieSheet]) ''2024-03''"
    using findMajorityMonth_majority[of plainRuntime "[tieSheet]"] e by blast
  have "dataMonthKeys plainRuntime [aprilSheet\<lparr>data := [headerRow]\<rparr>] = []"
    by code_simp
  then have n: "findMajorityMonth plainRuntime [aprilSheet\<lparr>data := [headerRow]\<rparr>] = None"
    using findMajorityMonth_majority[of plainRuntime "[aprilSheet\<lparr>data := [headerRow]\<rparr>]"]
    by blast
  from k e c n show ?thesis by blast
qed

section \<open>Properties of parseYMD\<close>

lemma DayFromYear_1970: "DayFromYear 1970 = 0"
  by (simp add: DayFromYear_def)

lemma DayFromYear_add: "DayFromYear y + 365 * int k \<le> DayFromYear (y + int k)"
proof (induction k)
  case 0
  then show ?case by simp
next
  case (Suc k)
  have "y + int (Suc k) = y + int k + 1" by simp
  then have "DayFromYear (y + int (Suc k)) = DayFromYear (y + int k) + DaysInYear (y + int k)"
    by (simp only: DayFromYear_Suc)
  moreover have "365 \<le> DaysInYear (y + int k)" by (rule DaysInYear_bounds)
  ultimately show ?case using Suc by simp
qed

lemma DayFromYear_mono: "y \<le> y' \<Longrightarrow> DayFromYear y \<le> DayFromYear y'"
proof -
  assume "y \<le> y'"
  then obtain k where k: "y' = y + int k"
    using zle_iff_zadd by blast
  have "DayFromYear y \<le> DayFromYear y + 365 * int k" by simp
  also have "\<dots> \<le> DayFromYear (y + int k)" by (rule DayFromYear_add)
  finally show ?thesis using k by simp
qed

lemma DayFromYear_upper: "DayFromYear (1970 + int k) \<le> 366 * int k"
proof (induction k)
  case 0
  then show ?case by (simp add: DayFromYear_1970)
next
  case (Suc k)
  have "1970 + int (Suc k) = 1970 + int k + 1" by simp
  then have "DayFromYear (1970 + int (Suc k)) = DayFromYear (1970 + int k) + DaysInYear (1970 + int k)"
    by (simp only: DayFromYear_Suc)
  moreover have "DaysInYear (1970 + int k) \<le> 366" by (rule DaysInYear_bounds)
  ultimately show ?case using Suc by simp
qed

lemma DayFromYear_before: "DayFromYear (1970 - int k) \<le> - 365 * int k"
proof (induction k)
  case 0
  then show ?case by (simp add: DayFromYear_1970)
next
  case (Suc k)
  have "DayFromYear (1970 - int (Suc k) + 1) = DayFromYear (1970 - int (Suc k)) + DaysInYear (1970 - int (Suc k))"
    by (rule DayFromYear_Suc)
  moreover have "1970 - int (Suc k) + 1 = 1970 - int k" by simp
  moreover have "365 \<le> DaysInYear (1970 - int (Suc k))" by (rule DaysInYear_bounds)
  ultimately show ?case using Suc by simp
qed

lemma estimate_not_after:
  "DayFromYear (1970 + (if 0 \<le> d then d div 366 else d div 365)) \<le> d"
proof (cases "0 \<le> d")
  case True
  then have "0 \<le> d div 366" by simp
  then have "DayFromYear (1970 + d div 366) \<le> 366 * (d div 366)"
    using DayFromYear_upper[of "nat (d div 366)"] by simp
  also have "\<dots> \<le> d"
    using mult_div_mod_eq[of 366 d] pos_mod_sign[of 366 d] by linarith
  finally show ?thesis using True by simp
next
  case False
  then have "d div 365 \<le> 0" by (simp add: div_nonpos_pos_le0)
  then have "DayFromYear (1970 + d div 365) \<le> 365 * (d div 365)"
    using DayFromYear_before[of "nat (- (d div 365))"] by simp
  also have "\<dots> \<le> d"
    using mult_div_mod_eq[of 365 d] pos_mod_sign[of 365 d] by linarith
  finally show ?thesis using False by simp
qed

lemma yearUp_bounds:
  "DayFromYear y \<le> d \<Longrightarrow> DayFromYear (yearUp d y) \<le> d \<and> d < DayFromYear (yearUp d y + 1)"
proof (induction d y rule: yearUp.induct)
  case (1 d y)
  show ?case
  proof (cases "DayFromYear (y + 1) \<le> d")
    case True
    then have "yearUp d y = yearUp d (y + 1)" by (subst yearUp.simps) simp
    then show ?thesis using 1 True by simp
  next
    case False
    then have "yearUp d y = y" by (subst yearUp.simps) simp
    then show ?thesis using 1 False by simp
  qed
qed



text \<open>
  The computed year meets the language definition: it is the largest year whose first
  day is not after the given day.
\<close>

lemma YearFromDay_spec:
  "DayFromYear (YearFromDay d) \<le> d \<and> (\<forall>y. DayFromYear y \<le> d \<longrightarrow> y \<le> YearFromDay d)"
proof -
  have b: "DayFromYear (YearFromDay d) \<le> d \<and> d < DayFromYear (YearFromDay d + 1)"
    unfolding YearFromDay_def by (rule yearUp_bounds) (rule estimate_not_after)
  have "y \<le> YearFromDay d" if "DayFromYear y \<le> d" for y
  proof (rule ccontr)
    assume "\<not> y \<le> YearFromDay d"
    then have "YearFromDay d + 1 \<le> y" by simp
    then have "DayFromYear (YearFromDay d + 1) \<le> DayFromYear y" by (rule DayFromYear_mono)
    with b that show False by simp
  qed
  with b show ?thesis by blast
qed



























end
